theory Spec2Isabelle
  imports Complex_Main
begin

section \<open>Residual records and the L-infinity reduction (parallel.cpp)\<close>

text \<open>
  Modelled from the spec: the class \<open>resid\<close> (resid.hpp) is a residual record, an
  L-infinity magnitude followed by five integers (block, i, j, k, equation index); the
  source at hand only names its fields \<open>linf\<close> and \<open>blk\<close>. Doubles are read as
  reals, so a magnitude is always an ordinary number.
\<close>

record resid =
  linf :: real
  blk :: int
  iLoc :: int
  jLoc :: int
  kLoc :: int
  eqn :: int

text \<open>
  \<open>MaxLinf\<close> walks the two arrays \<open>in\<close> and \<open>inout\<close> in step and stores, entry by
  entry, the input record when its magnitude is greater than or equal to the one already
  in \<open>inout\<close>. The result is the new content of \<open>inout\<close>; reading past the end of
  either array has no defined result and is \<open>None\<close>.
\<close>

fun MaxLinf :: "resid list \<Rightarrow> resid list \<Rightarrow> nat \<Rightarrow> resid list option" where
  "MaxLinf ins inouts 0 = Some inouts"
| "MaxLinf (a # ins) (b # inouts) (Suc len) =
     (let resLinf = (if linf a \<ge> linf b then a else b)
      in map_option ((#) resLinf) (MaxLinf ins inouts len))"
| "MaxLinf _ _ (Suc len) = None"

text \<open>
  Modelled from the spec: the global reduction combines the workers' records pairwise
  with the custom operation, in some bracketing that keeps the rank order. A reduction
  tree fixes the bracketing; its leaves are the workers' records (\<open>len = 1\<close>).
\<close>

datatype reduction = Worker resid | Combine reduction reduction

fun workers :: "reduction \<Rightarrow> resid list" where
  "workers (Worker r) = [r]"
| "workers (Combine l r) = workers l @ workers r"

fun reduceLinf :: "reduction \<Rightarrow> resid option" where
  "reduceLinf (Worker r) = Some r"
| "reduceLinf (Combine l r) =
     (case reduceLinf l of None \<Rightarrow> None
      | Some a \<Rightarrow> (case reduceLinf r of None \<Rightarrow> None
         | Some b \<Rightarrow> map_option hd (MaxLinf [a] [b] 1)))"

section \<open>Hyperplane ordering (utility.cpp)\<close>

text \<open>
  \<open>HyperplaneReorder\<close> runs four nested counting loops (plane, k, j, i from the
  outside in) and appends the cell \<open>(ii, jj, kk)\<close> whenever \<open>ii + jj + kk = pp\<close>.
  The list comprehension has the same generators in the same order. Indices are the
  source's \<open>int\<close>s, read as unbounded integers.
\<close>

definition HyperplaneReorder :: "int \<Rightarrow> int \<Rightarrow> int \<Rightarrow> (int \<times> int \<times> int) list" where
  "HyperplaneReorder imax jmax kmax =
     (let numPlanes = imax + jmax + kmax - 2
      in [(ii, jj, kk). pp \<leftarrow> [0..numPlanes - 1], kk \<leftarrow> [0..kmax - 1],
            jj \<leftarrow> [0..jmax - 1], ii \<leftarrow> [0..imax - 1], ii + jj + kk = pp])"

text \<open>The hyperplane of a cell, and the position of a cell in an ordering.\<close>

fun hyperplane :: "int \<times> int \<times> int \<Rightarrow> int" where
  "hyperplane (i, j, k) = i + j + k"

definition precedes :: "'a list \<Rightarrow> 'a \<Rightarrow> 'a \<Rightarrow> bool" where
  "precedes xs a b \<longleftrightarrow> (\<exists>m n. m < n \<and> n < length xs \<and> xs ! m = a \<and> xs ! n = b)"


section \<open>The block data model (procBlock.cpp)\<close>

text \<open>
  Modelled from the spec: the padded 3-D array \<open>multiArray3d\<close> (multiArray3d.hpp) is a
  dense container stored on \<open>[0,numI) \<times> [0,numJ) \<times> [0,numK)\<close>. It is a flat vector
  with the i index running fastest, as the packing code relies on
  (\<open>&state_(0, 0, 0)\<close> followed by \<open>Size()\<close> elements). Element access does not
  check its indices in the source; every theorem below keeps its accesses in range.
\<close>

record 'a multiArray3d =
  arrData :: "'a list"
  arrNumI :: int
  arrNumJ :: int
  arrNumK :: int

definition GetLoc1D :: "'a multiArray3d \<Rightarrow> int \<Rightarrow> int \<Rightarrow> int \<Rightarrow> int" where
  "GetLoc1D a ii jj kk = ii + jj * arrNumI a + kk * arrNumI a * arrNumJ a"

definition Size :: "'a multiArray3d \<Rightarrow> int" where
  "Size a = int (length (arrData a))"

definition at3 :: "'a multiArray3d \<Rightarrow> int \<Rightarrow> int \<Rightarrow> int \<Rightarrow> 'a" where
  "at3 a ii jj kk = arrData a ! nat (GetLoc1D a ii jj kk)"

definition set3 :: "'a multiArray3d \<Rightarrow> int \<Rightarrow> int \<Rightarrow> int \<Rightarrow> 'a \<Rightarrow> 'a multiArray3d" where
  "set3 a ii jj kk v = a\<lparr>arrData := (arrData a)[nat (GetLoc1D a ii jj kk) := v]\<rparr>"

definition inRange :: "'a multiArray3d \<Rightarrow> int \<Rightarrow> int \<Rightarrow> int \<Rightarrow> bool" where
  "inRange a ii jj kk \<longleftrightarrow>
     0 \<le> ii \<and> ii < arrNumI a \<and> 0 \<le> jj \<and> jj < arrNumJ a \<and> 0 \<le> kk \<and> kk < arrNumK a"

definition wfArray :: "'a multiArray3d \<Rightarrow> bool" where
  "wfArray a \<longleftrightarrow> 0 \<le> arrNumI a \<and> 0 \<le> arrNumJ a \<and> 0 \<le> arrNumK a \<and>
     Size a = arrNumI a * arrNumJ a * arrNumK a"

text \<open>
  Modelled from the spec: a cell state is a fixed-arity record of doubles (\<open>primVars\<close>
  in primitive, \<open>genArray\<close> in conserved form; primVars.hpp and genArray.hpp), here a
  list of reals of length \<open>NUMVARS\<close>. The arithmetic of \<open>genArray\<close> is element-wise.
\<close>

type_synonym primVars = "real list"
type_synonym genArray = "real list"

definition NUMVARS :: nat where
  "NUMVARS = 7"

definition genArray_plus :: "genArray \<Rightarrow> genArray \<Rightarrow> genArray" where
  "genArray_plus a b = map2 (+) a b"

definition genArray_minus :: "genArray \<Rightarrow> genArray \<Rightarrow> genArray" where
  "genArray_minus a b = map2 (-) a b"

definition genArray_times :: "genArray \<Rightarrow> genArray \<Rightarrow> genArray" where
  "genArray_times a b = map2 (*) a b"

definition genArray_scale :: "real \<Rightarrow> genArray \<Rightarrow> genArray" where
  "genArray_scale s a = map ((*) s) a"

text \<open>
  Modelled from the spec: \<open>vector3d<double>\<close> (vector3d.hpp) with its component-wise
  sum and difference, and \<open>unitVec3dMag<double>\<close>, a unit normal with a magnitude.
\<close>

datatype vector3d = Vector3d real real real

instantiation vector3d :: "{plus, minus}"
begin

fun plus_vector3d :: "vector3d \<Rightarrow> vector3d \<Rightarrow> vector3d" where
  "plus_vector3d (Vector3d a b c) (Vector3d x y z) = Vector3d (a + x) (b + y) (c + z)"

fun minus_vector3d :: "vector3d \<Rightarrow> vector3d \<Rightarrow> vector3d" where
  "minus_vector3d (Vector3d a b c) (Vector3d x y z) = Vector3d (a - x) (b - y) (c - z)"

instance ..

end

fun vector3d_scale :: "vector3d \<Rightarrow> real \<Rightarrow> vector3d" where
  "vector3d_scale (Vector3d a b c) s = Vector3d (a * s) (b * s) (c * s)"

record unitVec3dMag =
  unitVec :: vector3d
  mag :: real

text \<open>
  Modelled from the spec: the boundary descriptor (boundaryConditions.hpp) is an ordered
  sequence of surface patches, each with a tag string, a surface id in 1..6, an index
  range on the surface and an integer tag.
\<close>

record bcSurface =
  bcType :: string
  surfaceType :: int
  iMin :: int
  iMax :: int
  jMin :: int
  jMax :: int
  kMin :: int
  kMax :: int
  tag :: int

type_synonym boundaryConditions = "bcSurface list"

record procBlock =
  state :: "primVars multiArray3d"
  center :: "vector3d multiArray3d"
  fAreaI :: "unitVec3dMag multiArray3d"
  fAreaJ :: "unitVec3dMag multiArray3d"
  fAreaK :: "unitVec3dMag multiArray3d"
  fCenterI :: "vector3d multiArray3d"
  fCenterJ :: "vector3d multiArray3d"
  fCenterK :: "vector3d multiArray3d"
  residual :: "genArray multiArray3d"
  vol :: "real multiArray3d"
  avgWaveSpeed :: "real multiArray3d"
  dt :: "real multiArray3d"
  wallDist :: "real multiArray3d"
  bc :: boundaryConditions
  numGhosts :: int
  parBlock :: int
  rank :: int
  globalPos :: int
  localPos :: int

text \<open>
  Modelled from the spec: the accessors of procBlock.hpp. The numbers of interior cells
  are the extents of the arrays that carry no ghosts (\<open>residual_\<close> in the source).
\<close>

definition NumI :: "procBlock \<Rightarrow> int" where
  "NumI b = arrNumI (residual b)"

definition NumJ :: "procBlock \<Rightarrow> int" where
  "NumJ b = arrNumJ (residual b)"

definition NumK :: "procBlock \<Rightarrow> int" where
  "NumK b = arrNumK (residual b)"

definition NumCells :: "procBlock \<Rightarrow> int" where
  "NumCells b = Size (residual b)"

text \<open>
  The ways a run ends other than by returning: \<open>Fatal\<close> is the source's diagnostic
  followed by \<open>exit(0)\<close>; \<open>OutOfBounds\<close> marks an access outside a \<open>vector\<close>, which
  the source does not check.
\<close>

datatype error = Fatal | OutOfBounds

section \<open>Manual decomposition (parallel.cpp)\<close>

text \<open>
  Modelled from the spec: the inter-block record (boundaryConditions.hpp) holds, for each
  of its two patches, rank, block, local block, boundary id, the two index ranges and the
  constant-surface index, then the orientation and the four border flags of each side.
\<close>

record interblock =
  rankFirst :: int
  rankSecond :: int
  blockFirst :: int
  blockSecond :: int
  localBlockFirst :: int
  localBlockSecond :: int
  boundaryFirst :: int
  boundarySecond :: int
  d1StartFirst :: int
  d1StartSecond :: int
  d1EndFirst :: int
  d1EndSecond :: int
  d2StartFirst :: int
  d2StartSecond :: int
  d2EndFirst :: int
  d2EndSecond :: int
  constSurfFirst :: int
  constSurfSecond :: int
  orientation :: int
  borderFirst :: "bool list"
  borderSecond :: "bool list"

text \<open>
  The three loops of \<open>ManualDecomposition\<close>: ranks for \<open>ii < numProc\<close>, global positions
  for \<open>ii < grid.size()\<close>, and the ranks of every connection read from the blocks it
  names. Console output and the load statistics computed only for it are left out.
\<close>

definition setRanks :: "procBlock list \<Rightarrow> int \<Rightarrow> procBlock list" where
  "setRanks grid numProc =
     fold (\<lambda>ii g. g[nat ii := (g ! nat ii)\<lparr>rank := ii\<rparr>]) [0..numProc - 1] grid"

definition setGlobalPositions :: "procBlock list \<Rightarrow> procBlock list" where
  "setGlobalPositions grid =
     fold (\<lambda>ii g. g[nat ii := (g ! nat ii)\<lparr>globalPos := ii\<rparr>]) [0..int (length grid) - 1] grid"

definition validBlock :: "procBlock list \<Rightarrow> int \<Rightarrow> bool" where
  "validBlock grid n \<longleftrightarrow> 0 \<le> n \<and> n < int (length grid)"

fun setConnectionRanks :: "procBlock list \<Rightarrow> interblock list \<Rightarrow> error + interblock list" where
  "setConnectionRanks grid [] = Inr []"
| "setConnectionRanks grid (c # cs) =
     (if \<not> validBlock grid (blockFirst c) \<or> \<not> validBlock grid (blockSecond c)
      then Inl OutOfBounds
      else (case setConnectionRanks grid cs of
              Inl e \<Rightarrow> Inl e
            | Inr cs' \<Rightarrow>
                Inr (c\<lparr>rankFirst := rank (grid ! nat (blockFirst c)),
                       rankSecond := rank (grid ! nat (blockSecond c))\<rparr> # cs')))"

definition ManualDecomposition ::
  "procBlock list \<Rightarrow> int \<Rightarrow> interblock list \<Rightarrow> int \<Rightarrow>
     error + (int list \<times> procBlock list \<times> interblock list)" where
  "ManualDecomposition grid numProc connections totalCells =
     (if int (length grid) \<noteq> numProc then Inl Fatal
      else
        let loadBal = replicate (nat numProc) (1::int);
            grid1 = setRanks grid numProc;
            grid2 = setGlobalPositions grid1
        in (case setConnectionRanks grid2 connections of
              Inl e \<Rightarrow> Inl e
            | Inr connections' \<Rightarrow> Inr (loadBal, grid2, connections')))"

section \<open>Concrete blocks used to run the model\<close>

text \<open>
  \<open>mkArray\<close> is the constructor \<open>multiArray3d(ni, nj, nk, v)\<close>; \<open>defaultBlock\<close>
  is the default constructor \<open>procBlock::procBlock()\<close>: no ghosts, every array of
  extent 1 x 1 x 1 holding zeros.
\<close>

definition mkArray :: "int \<Rightarrow> int \<Rightarrow> int \<Rightarrow> 'a \<Rightarrow> 'a multiArray3d" where
  "mkArray ni nj nk v =
     \<lparr>arrData = replicate (nat (ni * nj * nk)) v, arrNumI = ni, arrNumJ = nj, arrNumK = nk\<rparr>"

definition defaultBlock :: procBlock where
  "defaultBlock =
     \<lparr>state = mkArray 1 1 1 (replicate NUMVARS 0),
      center = mkArray 1 1 1 (Vector3d 0 0 0),
      fAreaI = mkArray 1 1 1 \<lparr>unitVec = Vector3d 0 0 0, mag = 0\<rparr>,
      fAreaJ = mkArray 1 1 1 \<lparr>unitVec = Vector3d 0 0 0, mag = 0\<rparr>,
      fAreaK = mkArray 1 1 1 \<lparr>unitVec = Vector3d 0 0 0, mag = 0\<rparr>,
      fCenterI = mkArray 1 1 1 (Vector3d 0 0 0),
      fCenterJ = mkArray 1 1 1 (Vector3d 0 0 0),
      fCenterK = mkArray 1 1 1 (Vector3d 0 0 0),
      residual = mkArray 1 1 1 (replicate NUMVARS 0),
      vol = mkArray 1 1 1 0,
      avgWaveSpeed = mkArray 1 1 1 0,
      dt = mkArray 1 1 1 0,
      wallDist = mkArray 1 1 1 0,
      bc = [],
      numGhosts = 0, parBlock = 0, rank = 0, globalPos = 0, localPos = 0\<rparr>"

definition exampleConnection :: interblock where
  "exampleConnection =
     \<lparr>rankFirst = 7, rankSecond = 7, blockFirst = 0, blockSecond = 1,
      localBlockFirst = 0, localBlockSecond = 0, boundaryFirst = 2, boundarySecond = 1,
      d1StartFirst = 0, d1StartSecond = 0, d1EndFirst = 1, d1EndSecond = 1,
      d2StartFirst = 0, d2StartSecond = 0, d2EndFirst = 1, d2EndSecond = 1,
      constSurfFirst = 1, constSurfSecond = 0, orientation = 1,
      borderFirst = [False, False, False, False],
      borderSecond = [False, False, False, False]\<rparr>"

section \<open>Time step and explicit update (procBlock.cpp)\<close>

text \<open>
  A block as the allocating constructor \<open>procBlock(ni, nj, nk, numG)\<close> lays it out:
  cell arrays padded by the ghost layers on both sides, face arrays one longer in their
  own direction, and residual, time step, wave speed and wall distance on the interior
  cells only.
\<close>

definition hasDims :: "'a multiArray3d \<Rightarrow> int \<Rightarrow> int \<Rightarrow> int \<Rightarrow> bool" where
  "hasDims a ni nj nk \<longleftrightarrow>
     arrNumI a = ni \<and> arrNumJ a = nj \<and> arrNumK a = nk \<and> 0 \<le> ni \<and> 0 \<le> nj \<and> 0 \<le> nk \<and>
     Size a = ni * nj * nk"

definition wfBlock :: "procBlock \<Rightarrow> bool" where
  "wfBlock b \<longleftrightarrow>
     (let g = numGhosts b; ni = NumI b; nj = NumJ b; nk = NumK b
      in 0 \<le> g \<and>
         hasDims (state b) (ni + 2 * g) (nj + 2 * g) (nk + 2 * g) \<and>
         hasDims (center b) (ni + 2 * g) (nj + 2 * g) (nk + 2 * g) \<and>
         hasDims (fAreaI b) (ni + 2 * g + 1) (nj + 2 * g) (nk + 2 * g) \<and>
         hasDims (fAreaJ b) (ni + 2 * g) (nj + 2 * g + 1) (nk + 2 * g) \<and>
         hasDims (fAreaK b) (ni + 2 * g) (nj + 2 * g) (nk + 2 * g + 1) \<and>
         hasDims (fCenterI b) (ni + 2 * g + 1) (nj + 2 * g) (nk + 2 * g) \<and>
         hasDims (fCenterJ b) (ni + 2 * g) (nj + 2 * g + 1) (nk + 2 * g) \<and>
         hasDims (fCenterK b) (ni + 2 * g) (nj + 2 * g) (nk + 2 * g + 1) \<and>
         hasDims (residual b) ni nj nk \<and>
         hasDims (vol b) (ni + 2 * g) (nj + 2 * g) (nk + 2 * g) \<and>
         hasDims (avgWaveSpeed b) ni nj nk \<and>
         hasDims (dt b) ni nj nk \<and>
         hasDims (wallDist b) ni nj nk)"

text \<open>
  Modelled from the spec: the resolved input record (input.hpp), with the options the
  functions below read. \<open>Dt\<close> is the user's fixed time step (not positive when none is
  given), \<open>CFL\<close> the CFL number, \<open>LRef\<close> the reference length.
\<close>

record input =
  Dt :: real
  CFL :: real
  LRef :: real
  TimeIntegration :: string

text \<open>
  The loop nest over all physical cells, k outermost and i innermost, as a list of the
  index triples it visits. The loop bounds \<open>NumI()\<close>, \<open>NumJ()\<close>, \<open>NumK()\<close> are read
  once: no loop body below changes the extent of an array.
\<close>

definition physicalCells :: "procBlock \<Rightarrow> (int \<times> int \<times> int) list" where
  "physicalCells b =
     [(ii, jj, kk). kk \<leftarrow> [0..NumK b - 1], jj \<leftarrow> [0..NumJ b - 1], ii \<leftarrow> [0..NumI b - 1]]"

text \<open>A loop whose body may end the run: the first error stops it.\<close>

fun foldE :: "('a \<Rightarrow> 's \<Rightarrow> error + 's) \<Rightarrow> 'a list \<Rightarrow> 's \<Rightarrow> error + 's" where
  "foldE f [] s = Inr s"
| "foldE f (x # xs) s = (case f x s of Inl e \<Rightarrow> Inl e | Inr s' \<Rightarrow> foldE f xs s')"

definition CalcCellDt :: "procBlock \<Rightarrow> int \<Rightarrow> int \<Rightarrow> int \<Rightarrow> real \<Rightarrow> procBlock" where
  "CalcCellDt b ii jj kk cfl =
     b\<lparr>dt := set3 (dt b) ii jj kk
            (cfl * (at3 (vol b) (ii + numGhosts b) (jj + numGhosts b) (kk + numGhosts b) /
                    at3 (avgWaveSpeed b) ii jj kk))\<rparr>"

definition CalcBlockTimeStepCell ::
  "input \<Rightarrow> real \<Rightarrow> int \<times> int \<times> int \<Rightarrow> procBlock \<Rightarrow> error + procBlock" where
  "CalcBlockTimeStepCell inputVars aRef c b =
     (case c of (ii, jj, kk) \<Rightarrow>
        if Dt inputVars > 0 then
          Inr (b\<lparr>dt := set3 (dt b) ii jj kk (Dt inputVars * aRef / LRef inputVars)\<rparr>)
        else if CFL inputVars > 0 then
          Inr (CalcCellDt b ii jj kk (CFL inputVars))
        else Inl Fatal)"

definition CalcBlockTimeStep :: "input \<Rightarrow> real \<Rightarrow> procBlock \<Rightarrow> error + procBlock" where
  "CalcBlockTimeStep inputVars aRef b =
     foldE (CalcBlockTimeStepCell inputVars aRef) (physicalCells b) b"

text \<open>
  The conversions between primitive and conserved variables (\<open>primVars::ConsVars\<close> and
  the constructor \<open>primVars(consVars, false, eqnState)\<close>, primVars.cpp) are not part of
  the source at hand; the update functions take them as the parameters \<open>consOf\<close> and
  \<open>primOf\<close>, with the equation of state already applied.
\<close>

definition ExplicitEulerTimeAdvance ::
  "(primVars \<Rightarrow> genArray) \<Rightarrow> (genArray \<Rightarrow> primVars) \<Rightarrow> procBlock \<Rightarrow>
     int \<Rightarrow> int \<Rightarrow> int \<Rightarrow> int \<Rightarrow> int \<Rightarrow> int \<Rightarrow> procBlock" where
  "ExplicitEulerTimeAdvance consOf primOf b ig jg kg ip jp kp =
     (let consVars = consOf (at3 (state b) ig jg kg);
          consVars' = genArray_minus consVars
                        (genArray_scale (at3 (dt b) ip jp kp / at3 (vol b) ig jg kg)
                                        (at3 (residual b) ip jp kp))
      in b\<lparr>state := set3 (state b) ig jg kg (primOf consVars')\<rparr>)"

text \<open>
  \<open>primVars::UpdateWithConsVars\<close> is likewise a parameter (\<open>updateWith\<close>).
\<close>

definition ImplicitTimeAdvance ::
  "(primVars \<Rightarrow> genArray \<Rightarrow> primVars) \<Rightarrow> procBlock \<Rightarrow> genArray \<Rightarrow>
     int \<Rightarrow> int \<Rightarrow> int \<Rightarrow> procBlock" where
  "ImplicitTimeAdvance updateWith b du ii jj kk =
     b\<lparr>state := set3 (state b) ii jj kk (updateWith (at3 (state b) ii jj kk) du)\<rparr>"

definition alpha :: "real list" where
  "alpha = [0.25, 1 / 3, 0.5, 1]"

definition RK4TimeAdvance ::
  "(primVars \<Rightarrow> genArray) \<Rightarrow> (genArray \<Rightarrow> primVars) \<Rightarrow> procBlock \<Rightarrow> primVars \<Rightarrow>
     int \<Rightarrow> int \<Rightarrow> int \<Rightarrow> int \<Rightarrow> int \<Rightarrow> int \<Rightarrow> nat \<Rightarrow> procBlock" where
  "RK4TimeAdvance consOf primOf b currState ig jg kg ip jp kp rk =
     (let consVars = genArray_minus (consOf currState)
                       (genArray_scale (at3 (dt b) ip jp kp / at3 (vol b) ig jg kg * (alpha ! rk))
                                       (at3 (residual b) ip jp kp))
      in b\<lparr>state := set3 (state b) ig jg kg (primOf consVars)\<rparr>)"

text \<open>
  Modelled from the spec: \<open>resid::UpdateMax\<close> (resid.hpp) records a new L-infinity
  magnitude with its locator.
\<close>

definition UpdateMax :: "resid \<Rightarrow> real \<Rightarrow> int \<Rightarrow> int \<Rightarrow> int \<Rightarrow> int \<Rightarrow> int \<Rightarrow> resid" where
  "UpdateMax r a b i j k e = \<lparr>linf = a, blk = b, iLoc = i, jLoc = j, kLoc = k, eqn = e\<rparr>"

text \<open>
  The accumulation of the norms at one cell: the squared residual is added to \<open>l2\<close>, and
  every component larger than the running L-infinity replaces it.
\<close>

definition accumulateNorms ::
  "procBlock \<Rightarrow> int \<Rightarrow> int \<Rightarrow> int \<Rightarrow> genArray \<times> resid \<Rightarrow> genArray \<times> resid" where
  "accumulateNorms b ip jp kp n =
     (case n of (l2, linfR) \<Rightarrow>
        (genArray_plus l2 (genArray_times (at3 (residual b) ip jp kp) (at3 (residual b) ip jp kp)),
         fold (\<lambda>ll r. if at3 (residual b) ip jp kp ! ll > linf r
                       then UpdateMax r (at3 (residual b) ip jp kp ! ll) (parBlock b) ip jp kp
                              (int ll + 1)
                       else r)
              [0..<NUMVARS] linfR))"

section \<open>Inviscid and viscous flux assembly (procBlock.cpp)\<close>

text \<open>
  \<open>CalcInvFluxI\<close>, \<open>CalcInvFluxJ\<close> and \<open>CalcInvFluxK\<close> are the same loop written three
  times; they differ in the face arrays they read and in the index that steps across a
  face. \<open>CalcInvFlux\<close> takes that direction as an argument.
\<close>

datatype direction = DirI | DirJ | DirK

fun fArea :: "direction \<Rightarrow> procBlock \<Rightarrow> unitVec3dMag multiArray3d" where
  "fArea DirI b = fAreaI b"
| "fArea DirJ b = fAreaJ b"
| "fArea DirK b = fAreaK b"

fun dirIndex :: "direction \<Rightarrow> int \<times> int \<times> int \<Rightarrow> int" where
  "dirIndex DirI (ii, jj, kk) = ii"
| "dirIndex DirJ (ii, jj, kk) = jj"
| "dirIndex DirK (ii, jj, kk) = kk"

fun dirExtent :: "direction \<Rightarrow> 'a multiArray3d \<Rightarrow> int" where
  "dirExtent DirI a = arrNumI a"
| "dirExtent DirJ a = arrNumJ a"
| "dirExtent DirK a = arrNumK a"

fun stepDir :: "direction \<Rightarrow> int \<Rightarrow> int \<times> int \<times> int \<Rightarrow> int \<times> int \<times> int" where
  "stepDir DirI n (ii, jj, kk) = (ii + n, jj, kk)"
| "stepDir DirJ n (ii, jj, kk) = (ii, jj + n, kk)"
| "stepDir DirK n (ii, jj, kk) = (ii, jj, kk + n)"

definition at3c :: "'a multiArray3d \<Rightarrow> int \<times> int \<times> int \<Rightarrow> 'a" where
  "at3c a c = (case c of (ii, jj, kk) \<Rightarrow> at3 a ii jj kk)"

definition set3c :: "'a multiArray3d \<Rightarrow> int \<times> int \<times> int \<Rightarrow> 'a \<Rightarrow> 'a multiArray3d" where
  "set3c a c v = (case c of (ii, jj, kk) \<Rightarrow> set3 a ii jj kk v)"

definition withGhosts :: "procBlock \<Rightarrow> int \<times> int \<times> int \<Rightarrow> int \<times> int \<times> int" where
  "withGhosts b c =
     (case c of (ii, jj, kk) \<Rightarrow> (ii + numGhosts b, jj + numGhosts b, kk + numGhosts b))"

text \<open>
  The physical faces of a direction: the physical index starts at 0 and runs while the
  index with ghosts stays below the extent of the face array less the ghost layers.
\<close>

definition physicalFaces :: "direction \<Rightarrow> procBlock \<Rightarrow> (int \<times> int \<times> int) list" where
  "physicalFaces d b =
     [(ii, jj, kk). kk \<leftarrow> [0..arrNumK (fArea d b) - 2 * numGhosts b - 1],
                    jj \<leftarrow> [0..arrNumJ (fArea d b) - 2 * numGhosts b - 1],
                    ii \<leftarrow> [0..arrNumI (fArea d b) - 2 * numGhosts b - 1]]"

text \<open>
  \<open>AddToResidual\<close> for an inviscid flux adds its seven components to the residual
  of a cell; for a viscous flux, which has no mass component, it adds the six components
  to entries 1 to 6.
\<close>

definition AddToResidual :: "procBlock \<Rightarrow> genArray \<Rightarrow> int \<times> int \<times> int \<Rightarrow> procBlock" where
  "AddToResidual b flux c =
     b\<lparr>residual := set3c (residual b) c (genArray_plus (at3c (residual b) c) flux)\<rparr>"

definition AddToResidualVisc :: "procBlock \<Rightarrow> real list \<Rightarrow> int \<times> int \<times> int \<Rightarrow> procBlock" where
  "AddToResidualVisc b flux c =
     b\<lparr>residual := set3c (residual b) c
          (take 1 (at3c (residual b) c) @ genArray_plus (drop 1 (at3c (residual b) c)) flux)\<rparr>"

text \<open>
  The face reconstruction and the Roe flux (inviscidFlux.cpp), and the spectral radius
  \<open>CellSpectralRadius\<close> with the state accessors it calls, are parameters: \<open>roeFlux\<close>
  gives the flux at a face of the block, \<open>specRad\<close> the inviscid spectral radius from
  the lower and upper face areas and the cell state.
\<close>

definition CalcInvFluxFace ::
  "direction \<Rightarrow> (direction \<Rightarrow> procBlock \<Rightarrow> int \<times> int \<times> int \<Rightarrow> genArray) \<Rightarrow>
     (unitVec3dMag \<Rightarrow> unitVec3dMag \<Rightarrow> primVars \<Rightarrow> real) \<Rightarrow>
     int \<times> int \<times> int \<Rightarrow> procBlock \<Rightarrow> procBlock" where
  "CalcInvFluxFace d roeFlux specRad p b =
     (let g = withGhosts b p;
          tempFlux = roeFlux d b g;
          b1 = (if dirIndex d g > numGhosts b
                then AddToResidual b (genArray_scale (mag (at3c (fArea d b) g)) tempFlux)
                       (stepDir d (- 1) p)
                else b)
      in if dirIndex d g < dirExtent d (fArea d b) - numGhosts b - 1
         then (let b2 = AddToResidual b1
                          (genArray_scale (mag (at3c (fArea d b1) g))
                             (genArray_scale (- 1) tempFlux)) p
               in b2\<lparr>avgWaveSpeed := set3c (avgWaveSpeed b2) p
                        (at3c (avgWaveSpeed b2) p +
                         specRad (at3c (fArea d b2) g) (at3c (fArea d b2) (stepDir d 1 g))
                                 (at3c (state b2) g))\<rparr>)
         else b1)"

definition CalcInvFlux ::
  "direction \<Rightarrow> (direction \<Rightarrow> procBlock \<Rightarrow> int \<times> int \<times> int \<Rightarrow> genArray) \<Rightarrow>
     (unitVec3dMag \<Rightarrow> unitVec3dMag \<Rightarrow> primVars \<Rightarrow> real) \<Rightarrow> procBlock \<Rightarrow> procBlock" where
  "CalcInvFlux d roeFlux specRad b =
     fold (CalcInvFluxFace d roeFlux specRad) (physicalFaces d b) b"

text \<open>
  \<open>CalcViscFluxI\<close>, \<open>CalcViscFluxJ\<close>, \<open>CalcViscFluxK\<close>: the viscous flux at a face
  (viscousFlux.cpp) is the parameter \<open>viscFlux\<close>, \<open>ViscCellSpectralRadius\<close> the
  parameter \<open>viscSpecRad\<close> (face areas, cell state, cell volume, eddy viscosity) and the
  turbulence model's eddy viscosity at a cell the parameter \<open>eddyVisc\<close>.
\<close>

definition vCoeff :: real where
  "vCoeff = 1.0"

definition CalcViscFluxFace ::
  "direction \<Rightarrow> (direction \<Rightarrow> procBlock \<Rightarrow> int \<times> int \<times> int \<Rightarrow> real list) \<Rightarrow>
     (unitVec3dMag \<Rightarrow> unitVec3dMag \<Rightarrow> primVars \<Rightarrow> real \<Rightarrow> real \<Rightarrow> real) \<Rightarrow>
     (direction \<Rightarrow> primVars \<Rightarrow> int \<times> int \<times> int \<Rightarrow> real) \<Rightarrow>
     int \<times> int \<times> int \<Rightarrow> procBlock \<Rightarrow> procBlock" where
  "CalcViscFluxFace d viscFlux viscSpecRad eddyVisc p b =
     (let g = withGhosts b p;
          tempViscFlux = viscFlux d b g;
          b1 = (if dirIndex d g > numGhosts b
                then AddToResidualVisc b
                       (genArray_scale (mag (at3c (fArea d b) g)) (genArray_scale (- 1) tempViscFlux))
                       (stepDir d (- 1) p)
                else b)
      in if dirIndex d g < dirExtent d (fArea d b) - numGhosts b - 1
         then (let b2 = AddToResidualVisc b1
                          (genArray_scale (mag (at3c (fArea d b1) g)) tempViscFlux) p
               in b2\<lparr>avgWaveSpeed := set3c (avgWaveSpeed b2) p
                        (at3c (avgWaveSpeed b2) p +
                         vCoeff * viscSpecRad (at3c (fArea d b2) g)
                                    (at3c (fArea d b2) (stepDir d 1 g))
                                    (at3c (state b2) g) (at3c (vol b2) g)
                                    (eddyVisc d (at3c (state b2) g) p))\<rparr>)
         else b1)"

definition CalcViscFlux ::
  "direction \<Rightarrow> (direction \<Rightarrow> procBlock \<Rightarrow> int \<times> int \<times> int \<Rightarrow> real list) \<Rightarrow>
     (unitVec3dMag \<Rightarrow> unitVec3dMag \<Rightarrow> primVars \<Rightarrow> real \<Rightarrow> real \<Rightarrow> real) \<Rightarrow>
     (direction \<Rightarrow> primVars \<Rightarrow> int \<times> int \<times> int \<Rightarrow> real) \<Rightarrow> procBlock \<Rightarrow> procBlock" where
  "CalcViscFlux d viscFlux viscSpecRad eddyVisc b =
     fold (CalcViscFluxFace d viscFlux viscSpecRad eddyVisc) (physicalFaces d b) b"

definition ResetResidWS :: "procBlock \<Rightarrow> procBlock" where
  "ResetResidWS b =
     fold (\<lambda>c b. b\<lparr>residual := set3c (residual b) c (replicate NUMVARS 0),
                   avgWaveSpeed := set3c (avgWaveSpeed b) c 0\<rparr>)
          (physicalCells b) b"

text \<open>
  Modelled from the spec: the flux assembly of one iteration. Starting from the reset
  residual and wave speed it runs the three inviscid flux functions and, for a viscous
  run only, the three viscous ones.
\<close>

definition assembleFluxes ::
  "bool \<Rightarrow> (direction \<Rightarrow> procBlock \<Rightarrow> int \<times> int \<times> int \<Rightarrow> genArray) \<Rightarrow>
     (unitVec3dMag \<Rightarrow> unitVec3dMag \<Rightarrow> primVars \<Rightarrow> real) \<Rightarrow>
     (direction \<Rightarrow> procBlock \<Rightarrow> int \<times> int \<times> int \<Rightarrow> real list) \<Rightarrow>
     (unitVec3dMag \<Rightarrow> unitVec3dMag \<Rightarrow> primVars \<Rightarrow> real \<Rightarrow> real \<Rightarrow> real) \<Rightarrow>
     (direction \<Rightarrow> primVars \<Rightarrow> int \<times> int \<times> int \<Rightarrow> real) \<Rightarrow> procBlock \<Rightarrow> procBlock" where
  "assembleFluxes viscous roeFlux specRad viscFlux viscSpecRad eddyVisc b =
     (let b1 = CalcInvFlux DirK roeFlux specRad
                 (CalcInvFlux DirJ roeFlux specRad
                    (CalcInvFlux DirI roeFlux specRad (ResetResidWS b)))
      in if viscous
         then CalcViscFlux DirK viscFlux viscSpecRad eddyVisc
                (CalcViscFlux DirJ viscFlux viscSpecRad eddyVisc
                   (CalcViscFlux DirI viscFlux viscSpecRad eddyVisc b1))
         else b1)"

section \<open>The block update (procBlock.cpp)\<close>

text \<open>
  \<open>UpdateBlock\<close>. For a scheme other than \<open>rk4\<close> one sweep over the physical cells
  advances each cell and accumulates the norms. For \<open>rk4\<close> the state and the time step
  are saved, and each of the four stages sweeps the cells with \<open>RK4TimeAdvance\<close> from
  the saved state, accumulates the norms on the last stage, and after each of the first
  three stages runs the inviscid fluxes and \<open>CalcBlockTimeStep\<close> again. The saved time
  step \<open>dtN\<close> is not read again in the source.
\<close>

definition UpdateBlockCell ::
  "input \<Rightarrow> int \<Rightarrow> (primVars \<Rightarrow> genArray) \<Rightarrow> (genArray \<Rightarrow> primVars) \<Rightarrow>
     (primVars \<Rightarrow> genArray \<Rightarrow> primVars) \<Rightarrow> genArray multiArray3d \<Rightarrow>
     int \<times> int \<times> int \<Rightarrow> procBlock \<times> genArray \<times> resid \<Rightarrow> procBlock \<times> genArray \<times> resid" where
  "UpdateBlockCell inputVars impFlag consOf primOf updateWith du c s =
     (case c of (ip, jp, kp) \<Rightarrow> (case s of (b, n) \<Rightarrow>
        (let ig = ip + numGhosts b; jg = jp + numGhosts b; kg = kp + numGhosts b;
             b1 = (if TimeIntegration inputVars = ''explicitEuler''
                   then ExplicitEulerTimeAdvance consOf primOf b ig jg kg ip jp kp
                   else if impFlag \<noteq> 0
                   then ImplicitTimeAdvance updateWith b (at3 du ip jp kp) ig jg kg
                   else b)
         in (b1, accumulateNorms b1 ip jp kp n))))"

definition RK4StageCell ::
  "(primVars \<Rightarrow> genArray) \<Rightarrow> (genArray \<Rightarrow> primVars) \<Rightarrow> primVars multiArray3d \<Rightarrow> nat \<Rightarrow>
     int \<times> int \<times> int \<Rightarrow> procBlock \<times> genArray \<times> resid \<Rightarrow> procBlock \<times> genArray \<times> resid" where
  "RK4StageCell consOf primOf stateN rr c s =
     (case c of (ip, jp, kp) \<Rightarrow> (case s of (b, n) \<Rightarrow>
        (let ig = ip + numGhosts b; jg = jp + numGhosts b; kg = kp + numGhosts b;
             b1 = RK4TimeAdvance consOf primOf b (at3 stateN ig jg kg) ig jg kg ip jp kp rr
         in (b1, if rr = 3 then accumulateNorms b1 ip jp kp n else n))))"

definition RK4Stage ::
  "input \<Rightarrow> real \<Rightarrow> (primVars \<Rightarrow> genArray) \<Rightarrow> (genArray \<Rightarrow> primVars) \<Rightarrow>
     (direction \<Rightarrow> procBlock \<Rightarrow> int \<times> int \<times> int \<Rightarrow> genArray) \<Rightarrow>
     (unitVec3dMag \<Rightarrow> unitVec3dMag \<Rightarrow> primVars \<Rightarrow> real) \<Rightarrow> primVars multiArray3d \<Rightarrow>
     nat \<Rightarrow> procBlock \<times> genArray \<times> resid \<Rightarrow> error + procBlock \<times> genArray \<times> resid" where
  "RK4Stage inputVars aRef consOf primOf roeFlux specRad stateN rr s =
     (case fold (RK4StageCell consOf primOf stateN rr) (physicalCells (fst s)) s of (b1, n) \<Rightarrow>
        if rr < 3
        then (case CalcBlockTimeStep inputVars aRef
                     (CalcInvFlux DirK roeFlux specRad
                        (CalcInvFlux DirJ roeFlux specRad
                           (CalcInvFlux DirI roeFlux specRad b1))) of
                Inl e \<Rightarrow> Inl e
              | Inr b2 \<Rightarrow> Inr (b2, n))
        else Inr (b1, n))"

definition UpdateBlock ::
  "input \<Rightarrow> int \<Rightarrow> real \<Rightarrow> (primVars \<Rightarrow> genArray) \<Rightarrow> (genArray \<Rightarrow> primVars) \<Rightarrow>
     (primVars \<Rightarrow> genArray \<Rightarrow> primVars) \<Rightarrow>
     (direction \<Rightarrow> procBlock \<Rightarrow> int \<times> int \<times> int \<Rightarrow> genArray) \<Rightarrow>
     (unitVec3dMag \<Rightarrow> unitVec3dMag \<Rightarrow> primVars \<Rightarrow> real) \<Rightarrow>
     genArray multiArray3d \<Rightarrow> procBlock \<Rightarrow> genArray \<Rightarrow> resid \<Rightarrow>
     error + procBlock \<times> genArray \<times> resid" where
  "UpdateBlock inputVars impFlag aRef consOf primOf updateWith roeFlux specRad du b l2 linfR =
     (if TimeIntegration inputVars \<noteq> ''rk4''
      then Inr (fold (UpdateBlockCell inputVars impFlag consOf primOf updateWith du)
                     (physicalCells b) (b, l2, linfR))
      else (let stateN = state b; dtN = dt b
            in foldE (RK4Stage inputVars aRef consOf primOf roeFlux specRad stateN)
                     [0..<4] (b, l2, linfR)))"

section \<open>Notions used to state and prove the properties\<close>

text \<open>An index triple lies inside an array.\<close>

definition inRangeC :: "'a multiArray3d \<Rightarrow> int \<times> int \<times> int \<Rightarrow> bool" where
  "inRangeC a c = (case c of (i, j, k) \<Rightarrow> inRange a i j k)"

text \<open>A sweep that rewrites one array cell by cell.\<close>

definition sweep :: "('c \<Rightarrow> int \<times> int \<times> int) \<Rightarrow> ('c \<Rightarrow> 'a \<Rightarrow> 'a) \<Rightarrow> 'c list \<Rightarrow> 'a multiArray3d \<Rightarrow> 'a multiArray3d" where
  "sweep sh val cs a = fold (\<lambda>c a. set3c a (sh c) (val c (at3c a (sh c)))) cs a"

text \<open>Blocks that differ only in residual and wave speed, array extents kept.\<close>

definition sameDims :: "'a multiArray3d \<Rightarrow> 'a multiArray3d \<Rightarrow> bool" where
  "sameDims a a' \<longleftrightarrow> arrNumI a = arrNumI a' \<and> arrNumJ a = arrNumJ a' \<and>
     arrNumK a = arrNumK a' \<and> Size a = Size a'"

definition sameGeom :: "procBlock \<Rightarrow> procBlock \<Rightarrow> bool" where
  "sameGeom s b \<longleftrightarrow>
     (\<exists>r a. s = b\<lparr>residual := r, avgWaveSpeed := a\<rparr> \<and>
            sameDims r (residual b) \<and> sameDims a (avgWaveSpeed b))"

text \<open>
  The test of the flux loops that a face has a cell on its upper side, which is where the
  wave speed of that cell is accumulated.
\<close>

definition upperCond :: "direction \<Rightarrow> procBlock \<Rightarrow> int \<times> int \<times> int \<Rightarrow> bool" where
  "upperCond d b p \<longleftrightarrow>
     dirIndex d (withGhosts b p) < dirExtent d (fArea d b) - numGhosts b - 1"

text \<open>The spectral radii of a cell, read from the geometry and state of a block.\<close>

definition cellSpecRad ::
  "(unitVec3dMag \<Rightarrow> unitVec3dMag \<Rightarrow> primVars \<Rightarrow> real) \<Rightarrow> direction \<Rightarrow> procBlock \<Rightarrow>
     int \<times> int \<times> int \<Rightarrow> real" where
  "cellSpecRad specRad d b p =
     specRad (at3c (fArea d b) (withGhosts b p))
             (at3c (fArea d b) (stepDir d 1 (withGhosts b p)))
             (at3c (state b) (withGhosts b p))"

definition cellViscSpecRad ::
  "(unitVec3dMag \<Rightarrow> unitVec3dMag \<Rightarrow> primVars \<Rightarrow> real \<Rightarrow> real \<Rightarrow> real) \<Rightarrow>
     (direction \<Rightarrow> primVars \<Rightarrow> int \<times> int \<times> int \<Rightarrow> real) \<Rightarrow> direction \<Rightarrow> procBlock \<Rightarrow>
     int \<times> int \<times> int \<Rightarrow> real" where
  "cellViscSpecRad viscSpecRad eddyVisc d b p =
     viscSpecRad (at3c (fArea d b) (withGhosts b p))
                 (at3c (fArea d b) (stepDir d 1 (withGhosts b p)))
                 (at3c (state b) (withGhosts b p)) (at3c (vol b) (withGhosts b p))
                 (eddyVisc d (at3c (state b) (withGhosts b p)) p)"

text \<open>
  \<open>allocBlock\<close> is the allocating constructor \<open>procBlock(ni, nj, nk, numG)\<close>;
  \<open>exampleBlock\<close> is a block of one cell with two ghost layers whose cells all have
  volume 2.
\<close>

definition allocBlock :: "int \<Rightarrow> int \<Rightarrow> int \<Rightarrow> int \<Rightarrow> procBlock" where
  "allocBlock ni nj nk numG =
     \<lparr>state = mkArray (ni + 2 * numG) (nj + 2 * numG) (nk + 2 * numG) (replicate NUMVARS 0),
      center = mkArray (ni + 2 * numG) (nj + 2 * numG) (nk + 2 * numG) (Vector3d 0 0 0),
      fAreaI = mkArray (ni + 2 * numG + 1) (nj + 2 * numG) (nk + 2 * numG)
                 \<lparr>unitVec = Vector3d 0 0 0, mag = 0\<rparr>,
      fAreaJ = mkArray (ni + 2 * numG) (nj + 2 * numG + 1) (nk + 2 * numG)
                 \<lparr>unitVec = Vector3d 0 0 0, mag = 0\<rparr>,
      fAreaK = mkArray (ni + 2 * numG) (nj + 2 * numG) (nk + 2 * numG + 1)
                 \<lparr>unitVec = Vector3d 0 0 0, mag = 0\<rparr>,
      fCenterI = mkArray (ni + 2 * numG + 1) (nj + 2 * numG) (nk + 2 * numG) (Vector3d 0 0 0),
      fCenterJ = mkArray (ni + 2 * numG) (nj + 2 * numG + 1) (nk + 2 * numG) (Vector3d 0 0 0),
      fCenterK = mkArray (ni + 2 * numG) (nj + 2 * numG) (nk + 2 * numG + 1) (Vector3d 0 0 0),
      residual = mkArray ni nj nk (replicate NUMVARS 0),
      vol = mkArray (ni + 2 * numG) (nj + 2 * numG) (nk + 2 * numG) 0,
      avgWaveSpeed = mkArray ni nj nk 0,
      dt = mkArray ni nj nk 0,
      wallDist = mkArray ni nj nk 0,
      bc = [],
      numGhosts = numG, parBlock = 0, rank = 0, globalPos = 0, localPos = 0\<rparr>"

definition exampleBlock :: procBlock where
  "exampleBlock = (allocBlock 1 1 1 2)\<lparr>vol := mkArray 5 5 5 2\<rparr>"

text \<open>
  The value the explicit Euler update stores at a cell, as a function of the value found
  there; and the blocks and inputs on which the update functions are run below: one cell,
  two ghost layers, identity conversions, zero fluxes and a spectral radius of 1 in each
  direction.
\<close>

definition eulerValue ::
  "(primVars \<Rightarrow> genArray) \<Rightarrow> (genArray \<Rightarrow> primVars) \<Rightarrow> procBlock \<Rightarrow>
     int \<times> int \<times> int \<Rightarrow> primVars \<Rightarrow> primVars" where
  "eulerValue consOf primOf b p u =
     primOf (genArray_minus (consOf u)
               (genArray_scale (at3c (dt b) p / at3c (vol b) (withGhosts b p))
                               (at3c (residual b) p)))"

definition eulerBlock :: procBlock where
  "eulerBlock = exampleBlock
     \<lparr>state := mkArray 5 5 5 [5, 1, 1, 1, 1, 1, 1],
      residual := mkArray 1 1 1 [2, 0, 0, 0, 0, 0, 0],
      dt := mkArray 1 1 1 3\<rparr>"

definition rk4Block :: "real \<Rightarrow> real \<Rightarrow> real \<Rightarrow> procBlock" where
  "rk4Block u a d = exampleBlock
     \<lparr>state := set3 (mkArray 5 5 5 [5, 0, 0, 0, 0, 0, 0]) 2 2 2 [u, 0, 0, 0, 0, 0, 0],
      residual := mkArray 1 1 1 [1, 0, 0, 0, 0, 0, 0],
      avgWaveSpeed := mkArray 1 1 1 a,
      dt := mkArray 1 1 1 d\<rparr>"

definition rk4Input :: input where
  "rk4Input = \<lparr>Dt = 0, CFL = 3, LRef = 1, TimeIntegration = ''rk4''\<rparr>"

definition zeroFlux :: "direction \<Rightarrow> procBlock \<Rightarrow> int \<times> int \<times> int \<Rightarrow> genArray" where
  "zeroFlux d b g = [0, 0, 0, 0, 0, 0, 0]"

definition unitSpecRad :: "unitVec3dMag \<Rightarrow> unitVec3dMag \<Rightarrow> primVars \<Rightarrow> real" where
  "unitSpecRad l u s = 1"

section \<open>Gathering the solution (procBlock.cpp, parallel.cpp)\<close>

text \<open>
  Modelled from the spec: the message layer. A packed buffer is the sequence of doubles
  written into it; a cell record (\<open>MPI_cellData\<close>) is \<open>NUMVARS\<close> contiguous doubles.
  \<open>position\<close> counts doubles instead of bytes. A message in flight carries the ranks of
  its sender and receiver, its tag and its buffer. The coordinator's rank \<open>ROOTP\<close>
  (\<open>ROOT\<close> in parallel.cpp) is 0.
\<close>

record message =
  msgSource :: int
  msgDest :: int
  msgTag :: int
  payload :: "real list"

definition ROOTP :: int where
  "ROOTP = 0"

datatype commError = Blocked | UnpackError | NoLocalBlock

definition MPI_Pack_cellData :: "real list list \<Rightarrow> int \<Rightarrow> real list \<Rightarrow> real list" where
  "MPI_Pack_cellData inbuf incount outbuf = outbuf @ concat (take (nat incount) inbuf)"

definition MPI_Pack_double :: "real list \<Rightarrow> int \<Rightarrow> real list \<Rightarrow> real list" where
  "MPI_Pack_double inbuf incount outbuf = outbuf @ take (nat incount) inbuf"

definition MPI_Unpack_cellData ::
  "real list \<Rightarrow> nat \<Rightarrow> int \<Rightarrow> commError + (real list list \<times> nat)" where
  "MPI_Unpack_cellData inbuf position outcount =
     (if position + nat outcount * NUMVARS \<le> length inbuf
      then Inr (map (\<lambda>n. take NUMVARS (drop (position + n * NUMVARS) inbuf)) [0..<nat outcount],
                position + nat outcount * NUMVARS)
      else Inl UnpackError)"

definition MPI_Unpack_double ::
  "real list \<Rightarrow> nat \<Rightarrow> int \<Rightarrow> commError + (real list \<times> nat)" where
  "MPI_Unpack_double inbuf position outcount =
     (if position + nat outcount \<le> length inbuf
      then Inr (take (nat outcount) (drop position inbuf), position + nat outcount)
      else Inl UnpackError)"

text \<open>
  \<open>MPI_Probe\<close> followed by \<open>MPI_Recv\<close> with a source and a tag: the first message in
  flight to the coordinator with that source and tag; without one the call does not return.
\<close>

fun MPI_Recv :: "int \<Rightarrow> int \<Rightarrow> message list \<Rightarrow> commError + message \<times> message list" where
  "MPI_Recv source t [] = Inl Blocked"
| "MPI_Recv source t (m # ms) =
     (if msgSource m = source \<and> msgTag m = t \<and> msgDest m = ROOTP then Inr (m, ms)
      else (case MPI_Recv source t ms of
              Inl e \<Rightarrow> Inl e
            | Inr (m', ms') \<Rightarrow> Inr (m', m # ms')))"

text \<open>
  \<open>procBlock::PackSendSolMPI\<close> packs five arrays, the wall distance among them, and sends
  the buffer to the coordinator with the global position as tag.
\<close>

definition PackSendSolMPI :: "procBlock \<Rightarrow> message" where
  "PackSendSolMPI b =
     (let sendBuffer = [];
          sendBuffer = MPI_Pack_cellData (arrData (state b)) (Size (state b)) sendBuffer;
          sendBuffer = MPI_Pack_cellData (arrData (residual b)) (Size (residual b)) sendBuffer;
          sendBuffer = MPI_Pack_double (arrData (dt b)) (Size (dt b)) sendBuffer;
          sendBuffer = MPI_Pack_double (arrData (wallDist b)) (Size (wallDist b)) sendBuffer;
          sendBuffer = MPI_Pack_double (arrData (avgWaveSpeed b)) (Size (avgWaveSpeed b)) sendBuffer
      in \<lparr>msgSource = rank b, msgDest = ROOTP, msgTag = globalPos b, payload = sendBuffer\<rparr>)"

text \<open>
  \<open>procBlock::RecvUnpackSolMPI\<close> receives from the block's rank with the block's global
  position as tag and unpacks the five arrays in the same order, each over the whole
  storage of the block's array.
\<close>

definition RecvUnpackSolMPI ::
  "procBlock \<Rightarrow> message list \<Rightarrow> commError + procBlock \<times> message list" where
  "RecvUnpackSolMPI b inFlight =
     (case MPI_Recv (rank b) (globalPos b) inFlight of
        Inl e \<Rightarrow> Inl e
      | Inr (m, rest) \<Rightarrow>
         (case MPI_Unpack_cellData (payload m) 0 (Size (state b)) of
            Inl e \<Rightarrow> Inl e
          | Inr (st, position) \<Rightarrow>
         (case MPI_Unpack_cellData (payload m) position (Size (residual b)) of
            Inl e \<Rightarrow> Inl e
          | Inr (res, position) \<Rightarrow>
         (case MPI_Unpack_double (payload m) position (Size (dt b)) of
            Inl e \<Rightarrow> Inl e
          | Inr (dts, position) \<Rightarrow>
         (case MPI_Unpack_double (payload m) position (Size (wallDist b)) of
            Inl e \<Rightarrow> Inl e
          | Inr (wd, position) \<Rightarrow>
         (case MPI_Unpack_double (payload m) position (Size (avgWaveSpeed b)) of
            Inl e \<Rightarrow> Inl e
          | Inr (ws, position) \<Rightarrow>
              Inr (b\<lparr>state := (state b)\<lparr>arrData := st\<rparr>,
                     residual := (residual b)\<lparr>arrData := res\<rparr>,
                     dt := (dt b)\<lparr>arrData := dts\<rparr>,
                     wallDist := (wallDist b)\<lparr>arrData := wd\<rparr>,
                     avgWaveSpeed := (avgWaveSpeed b)\<lparr>arrData := ws\<rparr>\<rparr>, rest)))))))"

text \<open>
  \<open>GetProcBlocks\<close> of parallel.cpp writes the same exchange out in place. A worker
  packs, for each local block, the four vectors state, residual, time step and wave speed
  and sends them to \<open>ROOT\<close> with the global position as tag.
\<close>

definition GetProcBlocksSend :: "procBlock list \<Rightarrow> message list" where
  "GetProcBlocksSend localBlocks =
     map (\<lambda>b.
        let primVecS = arrData (state b); residS = arrData (residual b);
            dtS = arrData (dt b); waveS = arrData (avgWaveSpeed b);
            sendBuffer = [];
            sendBuffer = MPI_Pack_cellData primVecS (int (length primVecS)) sendBuffer;
            sendBuffer = MPI_Pack_cellData residS (int (length residS)) sendBuffer;
            sendBuffer = MPI_Pack_double dtS (int (length dtS)) sendBuffer;
            sendBuffer = MPI_Pack_double waveS (int (length waveS)) sendBuffer
        in \<lparr>msgSource = rank b, msgDest = ROOTP, msgTag = globalPos b, payload = sendBuffer\<rparr>)
       localBlocks"

text \<open>
  The coordinator loops over all blocks. A block of its own is taken from the local list
  in order; for any other it receives from the block's rank with the block's global
  position as tag and unpacks the four vectors, sized from the block's extents, into it.
\<close>

definition GetProcBlocksRecvBlock ::
  "procBlock \<Rightarrow> message list \<Rightarrow> commError + procBlock \<times> message list" where
  "GetProcBlocksRecvBlock b inFlight =
     (case MPI_Recv (rank b) (globalPos b) inFlight of
        Inl e \<Rightarrow> Inl e
      | Inr (m, rest) \<Rightarrow>
         (let numCells = (NumI b + 2 * numGhosts b) * (NumJ b + 2 * numGhosts b) *
                         (NumK b + 2 * numGhosts b);
              numCellsNG = NumI b * NumJ b * NumK b
          in
         (case MPI_Unpack_cellData (payload m) 0 numCells of
            Inl e \<Rightarrow> Inl e
          | Inr (primVecR, position) \<Rightarrow>
         (case MPI_Unpack_cellData (payload m) position numCellsNG of
            Inl e \<Rightarrow> Inl e
          | Inr (residR, position) \<Rightarrow>
         (case MPI_Unpack_double (payload m) position numCellsNG of
            Inl e \<Rightarrow> Inl e
          | Inr (dtR, position) \<Rightarrow>
         (case MPI_Unpack_double (payload m) position numCellsNG of
            Inl e \<Rightarrow> Inl e
          | Inr (waveR, position) \<Rightarrow>
              Inr (b\<lparr>state := (state b)\<lparr>arrData := primVecR\<rparr>,
                     residual := (residual b)\<lparr>arrData := residR\<rparr>,
                     dt := (dt b)\<lparr>arrData := dtR\<rparr>,
                     avgWaveSpeed := (avgWaveSpeed b)\<lparr>arrData := waveR\<rparr>\<rparr>, rest)))))))"

fun GetProcBlocksRoot ::
  "procBlock list \<Rightarrow> procBlock list \<Rightarrow> nat \<Rightarrow> message list \<Rightarrow> commError + procBlock list" where
  "GetProcBlocksRoot [] localBlocks locNum inFlight = Inr []"
| "GetProcBlocksRoot (b # blocks) localBlocks locNum inFlight =
     (if rank b = ROOTP
      then (if locNum < length localBlocks
            then (case GetProcBlocksRoot blocks localBlocks (locNum + 1) inFlight of
                    Inl e \<Rightarrow> Inl e
                  | Inr bs \<Rightarrow> Inr (localBlocks ! locNum # bs))
            else Inl NoLocalBlock)
      else (case GetProcBlocksRecvBlock b inFlight of
              Inl e \<Rightarrow> Inl e
            | Inr (b', rest) \<Rightarrow>
               (case GetProcBlocksRoot blocks localBlocks locNum rest of
                  Inl e \<Rightarrow> Inl e
                | Inr bs \<Rightarrow> Inr (b' # bs))))"

text \<open>
  Every cell record of a vector has \<open>NUMVARS\<close> entries; and a block whose five solution
  arrays hold different values, on worker 1 with global position 5.
\<close>

definition cellsOk :: "real list list \<Rightarrow> bool" where
  "cellsOk xs \<longleftrightarrow> (\<forall>x \<in> set xs. length x = NUMVARS)"

definition gatherBlock :: procBlock where
  "gatherBlock = defaultBlock
     \<lparr>state := mkArray 1 1 1 [1, 2, 3, 4, 5, 6, 7],
      residual := mkArray 1 1 1 [8, 0, 0, 0, 0, 0, 0],
      avgWaveSpeed := mkArray 1 1 1 4,
      dt := mkArray 1 1 1 3,
      wallDist := mkArray 1 1 1 9,
      rank := 1, globalPos := 5\<rparr>"

text \<open>
  Notions for the gather: a message is addressed to the receive of a block when its source
  is the block's rank, its tag the block's global position and its destination the
  coordinator; \<open>gatherMessage s\<close> is the message \<open>GetProcBlocks\<close> sends for a block;
  \<open>unpacked4 b s\<close> and \<open>unpacked5 b s\<close> are the block \<open>b\<close> holding the four, or
  five, solution arrays of \<open>s\<close>; \<open>fits4 b s\<close> says that the vectors of \<open>s\<close> have the
  sizes the coordinator computes from the extents of \<open>b\<close>.
\<close>

definition matchesBlock :: "procBlock \<Rightarrow> message \<Rightarrow> bool" where
  "matchesBlock b m \<longleftrightarrow> msgSource m = rank b \<and> msgTag m = globalPos b \<and> msgDest m = ROOTP"

definition gatherMessage :: "procBlock \<Rightarrow> message" where
  "gatherMessage s =
     \<lparr>msgSource = rank s, msgDest = ROOTP, msgTag = globalPos s,
      payload = concat (arrData (state s)) @ concat (arrData (residual s)) @
                arrData (dt s) @ arrData (avgWaveSpeed s)\<rparr>"

definition unpacked4 :: "procBlock \<Rightarrow> procBlock \<Rightarrow> procBlock" where
  "unpacked4 b s =
     b\<lparr>state := (state b)\<lparr>arrData := arrData (state s)\<rparr>,
       residual := (residual b)\<lparr>arrData := arrData (residual s)\<rparr>,
       dt := (dt b)\<lparr>arrData := arrData (dt s)\<rparr>,
       avgWaveSpeed := (avgWaveSpeed b)\<lparr>arrData := arrData (avgWaveSpeed s)\<rparr>\<rparr>"

definition unpacked5 :: "procBlock \<Rightarrow> procBlock \<Rightarrow> procBlock" where
  "unpacked5 b s =
     b\<lparr>state := (state b)\<lparr>arrData := arrData (state s)\<rparr>,
       residual := (residual b)\<lparr>arrData := arrData (residual s)\<rparr>,
       dt := (dt b)\<lparr>arrData := arrData (dt s)\<rparr>,
       wallDist := (wallDist b)\<lparr>arrData := arrData (wallDist s)\<rparr>,
       avgWaveSpeed := (avgWaveSpeed b)\<lparr>arrData := arrData (avgWaveSpeed s)\<rparr>\<rparr>"

definition fits4 :: "procBlock \<Rightarrow> procBlock \<Rightarrow> bool" where
  "fits4 b s \<longleftrightarrow>
     cellsOk (arrData (state s)) \<and> cellsOk (arrData (residual s)) \<and>
     Size (state s) = (NumI b + 2 * numGhosts b) * (NumJ b + 2 * numGhosts b) *
                      (NumK b + 2 * numGhosts b) \<and>
     Size (residual s) = NumI b * NumJ b * NumK b \<and>
     Size (dt s) = NumI b * NumJ b * NumK b \<and>
     Size (avgWaveSpeed s) = NumI b * NumJ b * NumK b"

definition fits5 :: "procBlock \<Rightarrow> procBlock \<Rightarrow> bool" where
  "fits5 b s \<longleftrightarrow>
     Size (state b) = Size (state s) \<and> Size (residual b) = Size (residual s) \<and>
     Size (dt b) = Size (dt s) \<and> Size (wallDist b) = Size (wallDist s) \<and>
     Size (avgWaveSpeed b) = Size (avgWaveSpeed s)"

definition blockKey :: "procBlock \<Rightarrow> int \<times> int" where
  "blockKey b = (rank b, globalPos b)"

text \<open>
  Blocks of one cell with one ghost layer to run the gather on: a block as a worker holds
  it, its arrays filled with values that tell them apart, and the same block as the
  coordinator holds it before the gather.
\<close>

definition workerBlock :: "int \<Rightarrow> int \<Rightarrow> real \<Rightarrow> procBlock" where
  "workerBlock rk gp v = (allocBlock 1 1 1 1)
     \<lparr>state := mkArray 3 3 3 (replicate NUMVARS v),
      residual := mkArray 1 1 1 (replicate NUMVARS (v + 1)),
      avgWaveSpeed := mkArray 1 1 1 (v + 4),
      dt := mkArray 1 1 1 (v + 2),
      wallDist := mkArray 1 1 1 (v + 3),
      rank := rk, globalPos := gp\<rparr>"

definition coordBlock :: "int \<Rightarrow> int \<Rightarrow> procBlock" where
  "coordBlock rk gp = (allocBlock 1 1 1 1)\<lparr>rank := rk, globalPos := gp\<rparr>"

section \<open>Geometry of the ghost cells (procBlock.cpp)\<close>

text \<open>
  Modelled from the spec: the block operations of \<open>multiArray3d\<close> (multiArray3d.hpp).
  \<open>Slice(is, ie, js, je, ks, ke)\<close> copies the closed index box into a new array whose
  extents are those of the box; \<open>Insert\<close> writes an array over such a box and ends the
  run when the shape of the array is not the shape of the box; \<open>+\<close>, \<open>-\<close> and the
  product with a scalar act element by element; \<open>GrowI\<close>, \<open>GrowJ\<close> and \<open>GrowK\<close> add
  one layer in their direction that repeats the last one. A box is written in the order
  of the arguments of the source, \<open>(is, ie, js, je, ks, ke)\<close>. \<open>tabulate3\<close> is the
  array of given extents whose element at \<open>(i, j, k)\<close> is \<open>f i j k\<close>, in the flat
  layout with i running fastest.
\<close>

type_synonym box = "int \<times> int \<times> int \<times> int \<times> int \<times> int"

definition tabulate3 :: "int \<Rightarrow> int \<Rightarrow> int \<Rightarrow> (int \<Rightarrow> int \<Rightarrow> int \<Rightarrow> 'a) \<Rightarrow> 'a multiArray3d" where
  "tabulate3 ni nj nk f =
     \<lparr>arrData = map (\<lambda>n. f (int n mod ni) ((int n div ni) mod nj) ((int n div ni) div nj))
                    [0..<nat (ni * nj * nk)],
      arrNumI = ni, arrNumJ = nj, arrNumK = nk\<rparr>"

fun boxCells :: "box \<Rightarrow> (int \<times> int \<times> int) list" where
  "boxCells (ilo, ihi, jlo, jhi, klo, khi) =
     [(ii, jj, kk). kk \<leftarrow> [klo..khi], jj \<leftarrow> [jlo..jhi], ii \<leftarrow> [ilo..ihi]]"

fun Slice :: "'a multiArray3d \<Rightarrow> box \<Rightarrow> 'a multiArray3d" where
  "Slice a (ilo, ihi, jlo, jhi, klo, khi) =
     tabulate3 (ihi - ilo + 1) (jhi - jlo + 1) (khi - klo + 1)
       (\<lambda>i j k. at3 a (ilo + i) (jlo + j) (klo + k))"

fun Insert :: "'a multiArray3d \<Rightarrow> box \<Rightarrow> 'a multiArray3d \<Rightarrow> error + 'a multiArray3d" where
  "Insert a (ilo, ihi, jlo, jhi, klo, khi) arr =
     (if arrNumI arr \<noteq> ihi - ilo + 1 \<or> arrNumJ arr \<noteq> jhi - jlo + 1 \<or>
         arrNumK arr \<noteq> khi - klo + 1
      then Inl Fatal
      else Inr (fold (\<lambda>c a. set3c a c
                        (case c of (ii, jj, kk) \<Rightarrow> at3 arr (ii - ilo) (jj - jlo) (kk - klo)))
                  (boxCells (ilo, ihi, jlo, jhi, klo, khi)) a))"

definition arrPlus :: "vector3d multiArray3d \<Rightarrow> vector3d multiArray3d \<Rightarrow> vector3d multiArray3d" where
  "arrPlus a b = a\<lparr>arrData := map2 (+) (arrData a) (arrData b)\<rparr>"

definition arrMinus :: "vector3d multiArray3d \<Rightarrow> vector3d multiArray3d \<Rightarrow> vector3d multiArray3d" where
  "arrMinus a b = a\<lparr>arrData := map2 (-) (arrData a) (arrData b)\<rparr>"

definition arrScale :: "vector3d multiArray3d \<Rightarrow> real \<Rightarrow> vector3d multiArray3d" where
  "arrScale a s = a\<lparr>arrData := map (\<lambda>v. vector3d_scale v s) (arrData a)\<rparr>"

definition GrowI :: "'a multiArray3d \<Rightarrow> 'a multiArray3d" where
  "GrowI a = tabulate3 (arrNumI a + 1) (arrNumJ a) (arrNumK a)
               (\<lambda>i j k. at3 a (min i (arrNumI a - 1)) j k)"

definition GrowJ :: "'a multiArray3d \<Rightarrow> 'a multiArray3d" where
  "GrowJ a = tabulate3 (arrNumI a) (arrNumJ a + 1) (arrNumK a)
               (\<lambda>i j k. at3 a i (min j (arrNumJ a - 1)) k)"

definition GrowK :: "'a multiArray3d \<Rightarrow> 'a multiArray3d" where
  "GrowK a = tabulate3 (arrNumI a) (arrNumJ a) (arrNumK a + 1)
               (\<lambda>i j k. at3 a i j (min k (arrNumK a - 1)))"

fun Grow :: "direction \<Rightarrow> 'a multiArray3d \<Rightarrow> 'a multiArray3d" where
  "Grow DirI a = GrowI a"
| "Grow DirJ a = GrowJ a"
| "Grow DirK a = GrowK a"

text \<open>Sequencing of steps that may end the run.\<close>

definition bindE :: "error + 'a \<Rightarrow> ('a \<Rightarrow> error + 'b) \<Rightarrow> error + 'b" where
  "bindE m f = (case m of Inl e \<Rightarrow> Inl e | Inr x \<Rightarrow> f x)"

text \<open>
  The indices of \<open>AssignGhostCellsGeom\<close> across a boundary surface: ghost cells
  \<open>g1\<close>, \<open>g2\<close>, interior cells \<open>i1\<close>, \<open>i2\<close>, and the faces \<open>fg1\<close>, \<open>fg2\<close>,
  \<open>bnd\<close>, \<open>fi1\<close>, \<open>fi2\<close>. On an upper surface they are counted from the last interior
  cell; on a lower surface the source writes the numbers out.
\<close>

record layerIndices =
  g2 :: int
  g1 :: int
  i1 :: int
  i2 :: int
  fg2 :: int
  fg1 :: int
  bnd :: int
  fi1 :: int
  fi2 :: int

definition upperIndices :: "int \<Rightarrow> layerIndices" where
  "upperIndices m =
     \<lparr>g2 = m + 2, g1 = m + 1, i1 = m, i2 = m - 1,
      fg2 = m + 3, fg1 = m + 2, bnd = m + 1, fi1 = m, fi2 = m - 1\<rparr>"

definition lowerIndices :: layerIndices where
  "lowerIndices = \<lparr>g2 = 0, g1 = 1, i1 = 2, i2 = 3, fg2 = 0, fg1 = 1, bnd = 2, fi1 = 3, fi2 = 4\<rparr>"

definition surfaceIndices :: "int \<Rightarrow> int \<Rightarrow> int \<Rightarrow> int \<Rightarrow> layerIndices" where
  "surfaceIndices st imax jmax kmax =
     (if st = 2 then upperIndices imax
      else if st = 4 then upperIndices jmax
      else if st = 6 then upperIndices kmax
      else lowerIndices)"

text \<open>
  The three branches of \<open>AssignGhostCellsGeom\<close>, for i-, j- and k-surfaces, are the
  same text up to the direction across the surface. \<open>layerBox d n\<close> is the surface
  range with the index of direction \<open>d\<close> fixed to \<open>n\<close>; \<open>extendF e\<close> lets the range of
  direction \<open>e\<close> run one further (\<open>imaxF\<close>, \<open>jmaxF\<close>, \<open>kmaxF\<close>); \<open>faceBox d e bx c f\<close>
  is the box an array of \<open>e\<close>-faces is read or written on: the layer of faces \<open>f\<close> when
  \<open>e\<close> is the direction across the surface, the layer of cells \<open>c\<close> with one more face
  along \<open>e\<close> otherwise.
\<close>

fun layerBox :: "direction \<Rightarrow> int \<Rightarrow> box \<Rightarrow> box" where
  "layerBox DirI n (ilo, ihi, jlo, jhi, klo, khi) = (n, n, jlo, jhi, klo, khi)"
| "layerBox DirJ n (ilo, ihi, jlo, jhi, klo, khi) = (ilo, ihi, n, n, klo, khi)"
| "layerBox DirK n (ilo, ihi, jlo, jhi, klo, khi) = (ilo, ihi, jlo, jhi, n, n)"

fun extendF :: "direction \<Rightarrow> box \<Rightarrow> box" where
  "extendF DirI (ilo, ihi, jlo, jhi, klo, khi) = (ilo, ihi + 1, jlo, jhi, klo, khi)"
| "extendF DirJ (ilo, ihi, jlo, jhi, klo, khi) = (ilo, ihi, jlo, jhi + 1, klo, khi)"
| "extendF DirK (ilo, ihi, jlo, jhi, klo, khi) = (ilo, ihi, jlo, jhi, klo, khi + 1)"

definition faceBox :: "direction \<Rightarrow> direction \<Rightarrow> box \<Rightarrow> int \<Rightarrow> int \<Rightarrow> box" where
  "faceBox d e bx c f = (if e = d then layerBox d f bx else extendF e (layerBox d c bx))"

fun fCenter :: "direction \<Rightarrow> procBlock \<Rightarrow> vector3d multiArray3d" where
  "fCenter DirI b = fCenterI b"
| "fCenter DirJ b = fCenterJ b"
| "fCenter DirK b = fCenterK b"

fun NumDir :: "direction \<Rightarrow> procBlock \<Rightarrow> int" where
  "NumDir DirI b = NumI b"
| "NumDir DirJ b = NumJ b"
| "NumDir DirK b = NumK b"

text \<open>
  Volumes and face areas of the two ghost layers: the first layer copies the first
  interior layer, the second layer the second interior layer, or the first again when the
  block is one cell thick (\<open>thin\<close>).
\<close>

definition ghostVol ::
  "direction \<Rightarrow> box \<Rightarrow> layerIndices \<Rightarrow> bool \<Rightarrow> real multiArray3d \<Rightarrow> error + real multiArray3d" where
  "ghostVol d bx ix thin v =
     bindE (Insert v (layerBox d (g1 ix) bx) (Slice v (layerBox d (i1 ix) bx)))
       (\<lambda>v1. Insert v1 (layerBox d (g2 ix) bx)
                (Slice v1 (layerBox d (if thin then i1 ix else i2 ix) bx)))"

definition ghostFArea ::
  "direction \<Rightarrow> direction \<Rightarrow> box \<Rightarrow> layerIndices \<Rightarrow> bool \<Rightarrow> unitVec3dMag multiArray3d \<Rightarrow>
     error + unitVec3dMag multiArray3d" where
  "ghostFArea d e bx ix thin a =
     bindE (Insert a (faceBox d e bx (g1 ix) (fg1 ix))
              (Slice a (faceBox d e bx (i1 ix) (fi1 ix))))
       (\<lambda>a1. Insert a1 (faceBox d e bx (g2 ix) (fg2 ix))
                (Slice a1 (if thin then faceBox d e bx (i1 ix) (fi1 ix)
                           else faceBox d e bx (i2 ix) (fi2 ix))))"

text \<open>
  The distance a ghost layer is moved, on the cells of the surface and, grown by one
  layer, on the faces of the other two directions.
\<close>

definition grown :: "direction \<Rightarrow> direction \<Rightarrow> vector3d multiArray3d \<Rightarrow> vector3d multiArray3d" where
  "grown d e dist2Move = (if e = d then dist2Move else Grow e dist2Move)"

definition ghostFCenter ::
  "direction \<Rightarrow> direction \<Rightarrow> box \<Rightarrow> layerIndices \<Rightarrow> int \<Rightarrow> int \<Rightarrow> vector3d multiArray3d \<Rightarrow>
     vector3d multiArray3d \<Rightarrow> error + vector3d multiArray3d" where
  "ghostFCenter d e bx ix c f move a =
     Insert a (faceBox d e bx c f) (arrPlus (Slice a (faceBox d e bx (i1 ix) (bnd ix))) move)"

text \<open>
  One surface of direction \<open>d\<close> that is not an inter-block patch. The statements follow
  the source: volumes, face areas, then cell and face centers of the first layer, the
  distance for the second layer, and cell and face centers of the second layer.
\<close>

definition AssignGhostCellsGeomSurface ::
  "direction \<Rightarrow> box \<Rightarrow> layerIndices \<Rightarrow> procBlock \<Rightarrow> error + procBlock" where
  "AssignGhostCellsGeomSurface d bx ix b =
     (let thin = (NumDir d b < 2) in
      bindE (ghostVol d bx ix thin (vol b)) (\<lambda>v.
      bindE (ghostFArea d DirI bx ix thin (fAreaI b)) (\<lambda>aI.
      bindE (ghostFArea d DirJ bx ix thin (fAreaJ b)) (\<lambda>aJ.
      bindE (ghostFArea d DirK bx ix thin (fAreaK b)) (\<lambda>aK.
      let dist2Move = arrMinus (Slice (fCenter d b) (layerBox d (bnd ix) bx))
                               (Slice (fCenter d b) (layerBox d (fi1 ix) bx)) in
      bindE (Insert (center b) (layerBox d (g1 ix) bx)
               (arrPlus (Slice (center b) (layerBox d (i1 ix) bx)) dist2Move)) (\<lambda>c1.
      bindE (ghostFCenter d DirI bx ix (g1 ix) (fg1 ix) (grown d DirI dist2Move) (fCenterI b)) (\<lambda>cI1.
      bindE (ghostFCenter d DirJ bx ix (g1 ix) (fg1 ix) (grown d DirJ dist2Move) (fCenterJ b)) (\<lambda>cJ1.
      bindE (ghostFCenter d DirK bx ix (g1 ix) (fg1 ix) (grown d DirK dist2Move) (fCenterK b)) (\<lambda>cK1.
      let fcd = (case d of DirI \<Rightarrow> cI1 | DirJ \<Rightarrow> cJ1 | DirK \<Rightarrow> cK1);
          dist2Move2 = (if thin then arrScale dist2Move 2.0
                        else arrMinus (Slice fcd (layerBox d (bnd ix) bx))
                                      (Slice fcd (layerBox d (fi2 ix) bx)));
          distE = (\<lambda>e. if thin then arrScale (grown d e dist2Move) 2.0
                        else grown d e dist2Move2) in
      bindE (Insert c1 (layerBox d (g2 ix) bx)
               (arrPlus (Slice c1 (layerBox d (i1 ix) bx)) dist2Move2)) (\<lambda>c2.
      bindE (ghostFCenter d DirI bx ix (g2 ix) (fg2 ix) (distE DirI) cI1) (\<lambda>cI2.
      bindE (ghostFCenter d DirJ bx ix (g2 ix) (fg2 ix) (distE DirJ) cJ1) (\<lambda>cJ2.
      bindE (ghostFCenter d DirK bx ix (g2 ix) (fg2 ix) (distE DirK) cK1) (\<lambda>cK2.
      Inr (b\<lparr>vol := v, fAreaI := aI, fAreaJ := aJ, fAreaK := aK, center := c2,
              fCenterI := cI2, fCenterJ := cJ2, fCenterK := cK2\<rparr>))))))))))))))"

text \<open>
  \<open>procBlock::AssignGhostCellsGeom\<close>: the loop over the boundary surfaces. The ranges
  of a surface are shifted to indices with ghosts; a surface of type 1 or 2 is an
  i-surface, 3 or 4 a j-surface, 5 or 6 a k-surface, and inter-block patches are left
  alone.
\<close>

definition surfaceBox :: "procBlock \<Rightarrow> bcSurface \<Rightarrow> box" where
  "surfaceBox b sf =
     (let imin = iMin sf - 1 + numGhosts b; imax = iMax sf - 2 + numGhosts b;
          jmin = jMin sf - 1 + numGhosts b; jmax = jMax sf - 2 + numGhosts b;
          kmin = kMin sf - 1 + numGhosts b; kmax = kMax sf - 2 + numGhosts b
      in (imin, imax, jmin, jmax, kmin, kmax))"

definition AssignGhostCellsGeomStep :: "bcSurface \<Rightarrow> procBlock \<Rightarrow> error + procBlock" where
  "AssignGhostCellsGeomStep sf b =
     (case surfaceBox b sf of (imin, imax, jmin, jmax, kmin, kmax) \<Rightarrow>
        let ix = surfaceIndices (surfaceType sf) imax jmax kmax;
            bx = (imin, imax, jmin, jmax, kmin, kmax)
        in if (surfaceType sf = 1 \<or> surfaceType sf = 2) \<and> bcType sf \<noteq> ''interblock''
           then AssignGhostCellsGeomSurface DirI bx ix b
           else if (surfaceType sf = 3 \<or> surfaceType sf = 4) \<and> bcType sf \<noteq> ''interblock''
           then AssignGhostCellsGeomSurface DirJ bx ix b
           else if (surfaceType sf = 5 \<or> surfaceType sf = 6) \<and> bcType sf \<noteq> ''interblock''
           then AssignGhostCellsGeomSurface DirK bx ix b
           else Inr b)"

definition AssignGhostCellsGeom :: "procBlock \<Rightarrow> error + procBlock" where
  "AssignGhostCellsGeom b = foldE AssignGhostCellsGeomStep (bc b) b"

text \<open>
  Notions used to state and prove the properties of the ghost geometry: membership of an
  index triple in a box, the shape of an array and of a box, an index relative to the
  origin of a box, a box that is not empty, the result of an \<open>Insert\<close> whose shapes
  agree, and a box that lies inside an array.
\<close>

fun inBox :: "box \<Rightarrow> int \<times> int \<times> int \<Rightarrow> bool" where
  "inBox (ilo, ihi, jlo, jhi, klo, khi) (i, j, k) \<longleftrightarrow>
     ilo \<le> i \<and> i \<le> ihi \<and> jlo \<le> j \<and> j \<le> jhi \<and> klo \<le> k \<and> k \<le> khi"

definition shapeOf :: "'a multiArray3d \<Rightarrow> int \<times> int \<times> int" where
  "shapeOf a = (arrNumI a, arrNumJ a, arrNumK a)"

fun boxDims :: "box \<Rightarrow> int \<times> int \<times> int" where
  "boxDims (ilo, ihi, jlo, jhi, klo, khi) = (ihi - ilo + 1, jhi - jlo + 1, khi - klo + 1)"

fun rel :: "box \<Rightarrow> int \<times> int \<times> int \<Rightarrow> int \<times> int \<times> int" where
  "rel (ilo, ihi, jlo, jhi, klo, khi) (i, j, k) = (i - ilo, j - jlo, k - klo)"

fun okBox :: "box \<Rightarrow> bool" where
  "okBox (ilo, ihi, jlo, jhi, klo, khi) \<longleftrightarrow> ilo \<le> ihi \<and> jlo \<le> jhi \<and> klo \<le> khi"

definition inserted :: "'a multiArray3d \<Rightarrow> box \<Rightarrow> 'a multiArray3d \<Rightarrow> 'a multiArray3d" where
  "inserted a bx arr = sweep (\<lambda>c. c) (\<lambda>c v. at3c arr (rel bx c)) (boxCells bx) a"

definition boxIn :: "'a multiArray3d \<Rightarrow> box \<Rightarrow> bool" where
  "boxIn a bx \<longleftrightarrow> (\<forall>c. inBox bx c \<longrightarrow> inRangeC a c)"

text \<open>
  The ranges of a surface of direction \<open>d\<close> along the other two directions lie on
  physical cells and are not empty; the layer indices are those of a lower surface or
  of an upper surface of the block.
\<close>

fun tangIn :: "direction \<Rightarrow> procBlock \<Rightarrow> box \<Rightarrow> bool" where
  "tangIn d b (ilo, ihi, jlo, jhi, klo, khi) \<longleftrightarrow>
     (d \<noteq> DirI \<longrightarrow> numGhosts b \<le> ilo \<and> ilo \<le> ihi \<and> ihi \<le> numGhosts b + NumI b - 1) \<and>
     (d \<noteq> DirJ \<longrightarrow> numGhosts b \<le> jlo \<and> jlo \<le> jhi \<and> jhi \<le> numGhosts b + NumJ b - 1) \<and>
     (d \<noteq> DirK \<longrightarrow> numGhosts b \<le> klo \<and> klo \<le> khi \<and> khi \<le> numGhosts b + NumK b - 1)"

definition layerOk :: "direction \<Rightarrow> procBlock \<Rightarrow> layerIndices \<Rightarrow> bool" where
  "layerOk d b ix \<longleftrightarrow>
     ix = lowerIndices \<or> ix = upperIndices (NumDir d b - 1 + numGhosts b)"

fun physCell :: "procBlock \<Rightarrow> int \<times> int \<times> int \<Rightarrow> bool" where
  "physCell b (i, j, k) \<longleftrightarrow>
     numGhosts b \<le> i \<and> i < numGhosts b + NumI b \<and>
     numGhosts b \<le> j \<and> j < numGhosts b + NumJ b \<and>
     numGhosts b \<le> k \<and> k < numGhosts b + NumK b"

definition physFace :: "direction \<Rightarrow> procBlock \<Rightarrow> int \<times> int \<times> int \<Rightarrow> bool" where
  "physFace e b p \<longleftrightarrow> physCell b p \<or> physCell b (stepDir e (- 1) p)"

text \<open>The center the source gives a ghost cell of the first layer.\<close>

definition movedCenter :: "direction \<Rightarrow> layerIndices \<Rightarrow> procBlock \<Rightarrow> int \<times> int \<times> int \<Rightarrow> vector3d" where
  "movedCenter d ix b c =
     at3c (center b) (stepDir d (i1 ix - g1 ix) c) +
     (at3c (fCenter d b) (stepDir d (bnd ix - g1 ix) c) -
      at3c (fCenter d b) (stepDir d (fi1 ix - g1 ix) c))"

definition goodBlock :: "procBlock \<Rightarrow> bool" where
  "goodBlock b \<longleftrightarrow> wfBlock b \<and> numGhosts b = 2 \<and> 1 \<le> NumI b \<and> 1 \<le> NumJ b \<and> 1 \<le> NumK b"

definition physIdx :: "procBlock \<Rightarrow> direction \<Rightarrow> int \<times> int \<times> int \<Rightarrow> bool" where
  "physIdx b e p \<longleftrightarrow> numGhosts b \<le> dirIndex e p \<and> dirIndex e p < numGhosts b + NumDir e b"

text \<open>
  The direction across a surface, its layer indices, and the surfaces the loop acts on: a
  surface type from 1 to 6 that is not an inter-block patch. A well-formed surface lies on
  its side of the block: an upper surface ends at the last node of its direction, and the
  ranges along the surface lie on physical cells.
\<close>

definition surfaceDir :: "int \<Rightarrow> direction" where
  "surfaceDir st = (if st = 1 \<or> st = 2 then DirI else if st = 3 \<or> st = 4 then DirJ else DirK)"

definition surfaceLayers :: "procBlock \<Rightarrow> bcSurface \<Rightarrow> layerIndices" where
  "surfaceLayers b sf =
     (case surfaceBox b sf of (imin, imax, jmin, jmax, kmin, kmax) \<Rightarrow>
        surfaceIndices (surfaceType sf) imax jmax kmax)"

definition activeSurface :: "bcSurface \<Rightarrow> bool" where
  "activeSurface sf \<longleftrightarrow>
     bcType sf \<noteq> ''interblock'' \<and> 1 \<le> surfaceType sf \<and> surfaceType sf \<le> 6"

definition wfSurface :: "procBlock \<Rightarrow> bcSurface \<Rightarrow> bool" where
  "wfSurface b sf \<longleftrightarrow>
     (activeSurface sf \<longrightarrow>
        tangIn (surfaceDir (surfaceType sf)) b (surfaceBox b sf) \<and>
        (surfaceType sf = 2 \<longrightarrow> iMax sf = NumI b + 1) \<and>
        (surfaceType sf = 4 \<longrightarrow> jMax sf = NumJ b + 1) \<and>
        (surfaceType sf = 6 \<longrightarrow> kMax sf = NumK b + 1))"

definition ghostLayer :: "procBlock \<Rightarrow> bcSurface \<Rightarrow> box" where
  "ghostLayer b sf =
     layerBox (surfaceDir (surfaceType sf)) (g1 (surfaceLayers b sf)) (surfaceBox b sf)"

text \<open>
  A block of one cell with two ghost layers on a grid of unit spacing: faces at whole
  coordinates, and cell centers at the fraction \<open>off\<close> of the cell along i and at the
  middle along j and k. With \<open>off = 1/2\<close> every center is the midpoint of its two
  i-faces.
\<close>

definition boxBlock :: "real \<Rightarrow> boundaryConditions \<Rightarrow> procBlock" where
  "boxBlock off surfs = (allocBlock 1 1 1 2)
     \<lparr>center := tabulate3 5 5 5
         (\<lambda>i j k. Vector3d (of_int i - 2 + off) (of_int j - 2 + 1 / 2) (of_int k - 2 + 1 / 2)),
      fCenterI := tabulate3 6 5 5
         (\<lambda>i j k. Vector3d (of_int i - 2) (of_int j - 2 + 1 / 2) (of_int k - 2 + 1 / 2)),
      fCenterJ := tabulate3 5 6 5
         (\<lambda>i j k. Vector3d (of_int i - 2 + 1 / 2) (of_int j - 2) (of_int k - 2 + 1 / 2)),
      fCenterK := tabulate3 5 5 6
         (\<lambda>i j k. Vector3d (of_int i - 2 + 1 / 2) (of_int j - 2 + 1 / 2) (of_int k - 2)),
      bc := surfs\<rparr>"

definition lowerIWall :: bcSurface where
  "lowerIWall = \<lparr>bcType = ''slipWall'', surfaceType = 1, iMin = 1, iMax = 1,
                 jMin = 1, jMax = 2, kMin = 1, kMax = 2, tag = 0\<rparr>"

definition upperIWall :: bcSurface where
  "upperIWall = \<lparr>bcType = ''slipWall'', surfaceType = 2, iMin = 2, iMax = 2,
                 jMin = 1, jMax = 2, kMin = 1, kMax = 2, tag = 0\<rparr>"

definition lowerJInterblock :: bcSurface where
  "lowerJInterblock = \<lparr>bcType = ''interblock'', surfaceType = 3, iMin = 1, iMax = 2,
                       jMin = 1, jMax = 1, kMin = 1, kMax = 2, tag = 0\<rparr>"

section \<open>Swapping geometry across an inter-block boundary (procBlock.cpp)\<close>












































section \<open>Properties of the L-infinity reduction\<close>

lemma MaxLinf_nth:
  "MaxLinf ins inouts len = Some outs \<Longrightarrow> ii < len \<Longrightarrow>
   outs ! ii = (if linf (ins ! ii) \<ge> linf (inouts ! ii) then ins ! ii else inouts ! ii)"
proof (induction ins inouts len arbitrary: outs ii rule: MaxLinf.induct)
  case (2 a ins b inouts len)
  then show ?case by (cases ii) (auto simp: Let_def)
qed auto

lemma MaxLinf_defined:
  "len \<le> length ins \<Longrightarrow> len \<le> length inouts \<Longrightarrow>
   \<exists>outs. MaxLinf ins inouts len = Some outs \<and> length outs = length inouts"
proof (induction ins inouts len rule: MaxLinf.induct)
  case (2 a ins b inouts len)
  then show ?case by (auto simp: Let_def)
qed auto

lemma workers_nonempty: "workers t \<noteq> []"
  by (induction t) auto

lemma reduceLinf_max:
  "\<exists>r. reduceLinf t = Some r \<and> r \<in> set (workers t) \<and> linf r = Max (linf ` set (workers t))"
proof (induction t)
  case (Worker x)
  then show ?case by simp
next
  case (Combine l r)
  then obtain a b where
    a: "reduceLinf l = Some a" "a \<in> set (workers l)" "linf a = Max (linf ` set (workers l))" and
    b: "reduceLinf r = Some b" "b \<in> set (workers r)" "linf b = Max (linf ` set (workers r))"
    by blast
  have "Max (linf ` set (workers l) \<union> linf ` set (workers r)) = max (linf a) (linf b)"
    using a b workers_nonempty[of l] workers_nonempty[of r] by (simp add: Max_Un)
  then show ?case using a b by (auto simp: One_nat_def image_Un)
qed

text \<open>
  Claim C6. On arrays that hold at least \<open>len\<close> records, \<open>MaxLinf\<close> returns, and at
  every position below \<open>len\<close> the stored record has the larger of the two magnitudes and
  is, with its whole locator, one of the two input records at that position. Hence a
  reduction over the workers' records, however it is bracketed, returns one of the
  workers' records, and its magnitude is the maximum over all of them.
\<close>

theorem MaxLinf_keeps_max_and_locator:
  assumes "len \<le> length ins" and "len \<le> length inouts"
  shows "\<exists>outs. MaxLinf ins inouts len = Some outs \<and>
           (\<forall>ii < len. linf (outs ! ii) = max (linf (ins ! ii)) (linf (inouts ! ii)) \<and>
                        (outs ! ii = ins ! ii \<or> outs ! ii = inouts ! ii)) \<and>
           (\<forall>t. \<exists>r. reduceLinf t = Some r \<and> r \<in> set (workers t) \<and>
                      linf r = Max (linf ` set (workers t)))"
proof -
  obtain outs where o: "MaxLinf ins inouts len = Some outs"
    using MaxLinf_defined[OF assms] by blast
  have "linf (outs ! ii) = max (linf (ins ! ii)) (linf (inouts ! ii)) \<and>
        (outs ! ii = ins ! ii \<or> outs ! ii = inouts ! ii)" if "ii < len" for ii
    using MaxLinf_nth[OF o that] by (simp add: max_def)
  then show ?thesis using o reduceLinf_max by blast
qed

theorem MaxLinf_keeps_max_and_locator_witness:
  "MaxLinf [\<lparr>linf = 3, blk = 1, iLoc = 4, jLoc = 5, kLoc = 6, eqn = 2\<rparr>]
           [\<lparr>linf = 2, blk = 0, iLoc = 7, jLoc = 8, kLoc = 9, eqn = 1\<rparr>] 1
     = Some [\<lparr>linf = 3, blk = 1, iLoc = 4, jLoc = 5, kLoc = 6, eqn = 2\<rparr>]
   \<and> reduceLinf (Combine (Worker \<lparr>linf = 2, blk = 0, iLoc = 7, jLoc = 8, kLoc = 9, eqn = 1\<rparr>)
                          (Worker \<lparr>linf = 3, blk = 1, iLoc = 4, jLoc = 5, kLoc = 6, eqn = 2\<rparr>))
     = Some \<lparr>linf = 3, blk = 1, iLoc = 4, jLoc = 5, kLoc = 6, eqn = 2\<rparr>"
  using MaxLinf_keeps_max_and_locator
          [of 1 "[\<lparr>linf = 3, blk = 1, iLoc = 4, jLoc = 5, kLoc = 6, eqn = 2\<rparr>]"
                "[\<lparr>linf = 2, blk = 0, iLoc = 7, jLoc = 8, kLoc = 9, eqn = 1\<rparr>]"]
  by (simp add: One_nat_def)

section \<open>Properties of the hyperplane ordering\<close>

lemma set_HyperplaneReorder:
  "set (HyperplaneReorder imax jmax kmax) =
     {(i, j, k). 0 \<le> i \<and> i < imax \<and> 0 \<le> j \<and> j < jmax \<and> 0 \<le> k \<and> k < kmax}"
  unfolding HyperplaneReorder_def Let_def by auto

lemma distinct_concat_map_aux:
  "distinct xs \<and> (\<forall>x \<in> set xs. distinct (f x)) \<and>
   (\<forall>x \<in> set xs. \<forall>y \<in> set xs. x \<noteq> y \<longrightarrow> set (f x) \<inter> set (f y) = {}) \<longrightarrow>
   distinct (concat (map f xs))"
proof (induction xs)
  case (Cons a xs)
  show ?case
  proof (intro impI, elim conjE)
    assume d: "distinct (a # xs)" and e: "\<forall>x \<in> set (a # xs). distinct (f x)"
      and dj: "\<forall>x \<in> set (a # xs). \<forall>y \<in> set (a # xs). x \<noteq> y \<longrightarrow> set (f x) \<inter> set (f y) = {}"
    have "distinct (concat (map f xs))" using Cons d e dj by simp
    moreover have "set (f a) \<inter> set (f y) = {}" if "y \<in> set xs" for y
      using d dj that by auto
    ultimately show "distinct (concat (map f (a # xs)))" using e by auto
  qed
qed simp

lemma distinct_concat_map:
  "distinct xs \<Longrightarrow> (\<And>x. x \<in> set xs \<Longrightarrow> distinct (f x)) \<Longrightarrow>
   (\<And>x y. x \<in> set xs \<Longrightarrow> y \<in> set xs \<Longrightarrow> x \<noteq> y \<Longrightarrow> set (f x) \<inter> set (f y) = {}) \<Longrightarrow>
   distinct (concat (map f xs))"
  using distinct_concat_map_aux[of xs f] by blast

lemma distinct_HyperplaneReorder: "distinct (HyperplaneReorder imax jmax kmax)"
  unfolding HyperplaneReorder_def Let_def
  apply (rule distinct_concat_map, simp)
   apply (rule distinct_concat_map, simp)
    apply (rule distinct_concat_map, simp)
     apply (rule distinct_concat_map, simp)
      apply simp
     apply (auto)[1]
    apply (auto)[1]
   apply (auto)[1]
  apply (auto)[1]
  done

lemma sorted_concat_map_aux:
  "sorted xs \<and> (\<forall>x \<in> set xs. \<forall>y \<in> set (f x). g y = x) \<longrightarrow>
   sorted (map g (concat (map f xs)))"
proof (induction xs)
  case (Cons a xs)
  show ?case
  proof (intro impI, elim conjE)
    assume s: "sorted (a # xs)" and e: "\<forall>x \<in> set (a # xs). \<forall>y \<in> set (f x). g y = x"
    have 1: "sorted (map g (concat (map f xs)))" using Cons s e by simp
    have 2: "sorted (map g (f a))" using e by (simp add: sorted_wrt_iff_nth_less)
    have 3: "g y \<le> g z" if "y \<in> set (f a)" "x \<in> set xs" "z \<in> set (f x)" for x y z
      using s e that by auto
    show "sorted (map g (concat (map f (a # xs))))"
      using 1 2 3 by (auto simp: sorted_append)
  qed
qed simp

lemma sorted_concat_map:
  "sorted xs \<Longrightarrow> (\<And>x y. x \<in> set xs \<Longrightarrow> y \<in> set (f x) \<Longrightarrow> g y = x) \<Longrightarrow>
   sorted (map g (concat (map f xs)))"
  using sorted_concat_map_aux[of xs f g] by blast

lemma sorted_HyperplaneReorder:
  "sorted (map hyperplane (HyperplaneReorder imax jmax kmax))"
  unfolding HyperplaneReorder_def Let_def
  by (rule sorted_concat_map) auto

lemma precedes_sorted:
  assumes "sorted (map g xs)" "a \<in> set xs" "b \<in> set xs" "g a < g b"
  shows "precedes xs a b"
proof -
  obtain m where m: "m < length xs" "xs ! m = a"
    using assms(2) by (auto simp: in_set_conv_nth)
  obtain n where n: "n < length xs" "xs ! n = b"
    using assms(3) by (auto simp: in_set_conv_nth)
  have "m < n"
  proof (rule ccontr)
    assume "\<not> m < n"
    then have "n \<le> m" by simp
    then have "g (xs ! n) \<le> g (xs ! m)"
      using assms(1) m(1) by (simp add: sorted_iff_nth_mono)
    with assms(4) m n show False by simp
  qed
  then show ?thesis using m n unfolding precedes_def by blast
qed

text \<open>
  Claim C5. For positive \<open>imax\<close>, \<open>jmax\<close>, \<open>kmax\<close> the ordering returned by
  \<open>HyperplaneReorder\<close> has no repetition and holds exactly the cells of the grid, so
  every cell is visited exactly once. The ordering is by hyperplane: the hyperplane
  numbers along the list never decrease, so every cell of a smaller hyperplane stands
  before every cell of a larger one. In particular, for every cell, each of the three
  lower neighbours that is physical (its decremented index is still at least 0) lies on
  a smaller hyperplane and therefore stands earlier in the ordering.
\<close>

theorem HyperplaneReorder_visits_once_in_order:
  assumes "0 < imax" and "0 < jmax" and "0 < kmax"
  shows "distinct (HyperplaneReorder imax jmax kmax) \<and>
    set (HyperplaneReorder imax jmax kmax) =
      {(i, j, k). 0 \<le> i \<and> i < imax \<and> 0 \<le> j \<and> j < jmax \<and> 0 \<le> k \<and> k < kmax} \<and>
    sorted (map hyperplane (HyperplaneReorder imax jmax kmax)) \<and>
    (\<forall>a \<in> set (HyperplaneReorder imax jmax kmax).
       \<forall>b \<in> set (HyperplaneReorder imax jmax kmax).
         hyperplane a < hyperplane b \<longrightarrow> precedes (HyperplaneReorder imax jmax kmax) a b) \<and>
    (\<forall>(i, j, k) \<in> set (HyperplaneReorder imax jmax kmax).
       (0 \<le> i - 1 \<longrightarrow> hyperplane (i - 1, j, k) < hyperplane (i, j, k) \<and>
          precedes (HyperplaneReorder imax jmax kmax) (i - 1, j, k) (i, j, k)) \<and>
       (0 \<le> j - 1 \<longrightarrow> hyperplane (i, j - 1, k) < hyperplane (i, j, k) \<and>
          precedes (HyperplaneReorder imax jmax kmax) (i, j - 1, k) (i, j, k)) \<and>
       (0 \<le> k - 1 \<longrightarrow> hyperplane (i, j, k - 1) < hyperplane (i, j, k) \<and>
          precedes (HyperplaneReorder imax jmax kmax) (i, j, k - 1) (i, j, k)))"
proof -
  let ?r = "HyperplaneReorder imax jmax kmax"
  have pre: "precedes ?r a b" if "a \<in> set ?r" "b \<in> set ?r" "hyperplane a < hyperplane b" for a b
    using precedes_sorted[OF sorted_HyperplaneReorder that] .
  have nb: "\<forall>(i, j, k) \<in> set ?r.
       (0 \<le> i - 1 \<longrightarrow> hyperplane (i - 1, j, k) < hyperplane (i, j, k) \<and>
          precedes ?r (i - 1, j, k) (i, j, k)) \<and>
       (0 \<le> j - 1 \<longrightarrow> hyperplane (i, j - 1, k) < hyperplane (i, j, k) \<and>
          precedes ?r (i, j - 1, k) (i, j, k)) \<and>
       (0 \<le> k - 1 \<longrightarrow> hyperplane (i, j, k - 1) < hyperplane (i, j, k) \<and>
          precedes ?r (i, j, k - 1) (i, j, k))"
    apply clarsimp
    apply (intro conjI impI pre)
    apply (auto simp: set_HyperplaneReorder)
    done
  show ?thesis
    using distinct_HyperplaneReorder[of imax jmax kmax] set_HyperplaneReorder[of imax jmax kmax]
      sorted_HyperplaneReorder[of imax jmax kmax] pre nb
    by blast
qed

theorem HyperplaneReorder_visits_once_in_order_witness:
  "HyperplaneReorder 2 2 2 =
     [(0, 0, 0), (1, 0, 0), (0, 1, 0), (0, 0, 1), (1, 1, 0), (1, 0, 1), (0, 1, 1), (1, 1, 1)] \<and>
   map hyperplane (HyperplaneReorder 2 2 2) = [0, 1, 1, 1, 2, 2, 2, 3] \<and>
   distinct (HyperplaneReorder 2 2 2) \<and>
   sorted (map hyperplane (HyperplaneReorder 2 2 2)) \<and>
   precedes (HyperplaneReorder 2 2 2) (0, 0, 1) (1, 1, 0) \<and>
   precedes (HyperplaneReorder 2 2 2) (0, 1, 1) (1, 1, 1) \<and>
   precedes (HyperplaneReorder 2 2 2) (1, 0, 1) (1, 1, 1) \<and>
   precedes (HyperplaneReorder 2 2 2) (1, 1, 0) (1, 1, 1)"
proof -
  have e: "HyperplaneReorder 2 2 2 =
     [(0, 0, 0), (1, 0, 0), (0, 1, 0), (0, 0, 1), (1, 1, 0), (1, 0, 1), (0, 1, 1), (1, 1, 1)]"
    by code_simp
  have hp: "map hyperplane (HyperplaneReorder 2 2 2) = [0, 1, 1, 1, 2, 2, 2, 3]"
    by (simp add: e)
  have m: "(1, 1, 1) \<in> set (HyperplaneReorder 2 2 2)" "(0, 0, 1) \<in> set (HyperplaneReorder 2 2 2)"
    "(1, 1, 0) \<in> set (HyperplaneReorder 2 2 2)"
    by (simp_all add: e)
  have h: "(0::int) < 2" by simp
  note t = HyperplaneReorder_visits_once_in_order[OF h h h]
  from t have d: "distinct (HyperplaneReorder 2 2 2)" by blast
  from t have s: "sorted (map hyperplane (HyperplaneReorder 2 2 2))" by blast
  from t m(2,3) have "hyperplane (0, 0, 1) < hyperplane (1, 1, 0) \<longrightarrow>
      precedes (HyperplaneReorder 2 2 2) (0, 0, 1) (1, 1, 0)"
    by blast
  then have p0: "precedes (HyperplaneReorder 2 2 2) (0, 0, 1) (1, 1, 0)" by simp
  from t m(1) have "(0::int) \<le> 1 - 1 \<longrightarrow> precedes (HyperplaneReorder 2 2 2) (1 - 1, 1, 1) (1, 1, 1)"
    by blast
  then have p1: "precedes (HyperplaneReorder 2 2 2) (0, 1, 1) (1, 1, 1)" by simp
  from t m(1) have "(0::int) \<le> 1 - 1 \<longrightarrow> precedes (HyperplaneReorder 2 2 2) (1, 1 - 1, 1) (1, 1, 1)"
    by blast
  then have p2: "precedes (HyperplaneReorder 2 2 2) (1, 0, 1) (1, 1, 1)" by simp
  from t m(1) have "(0::int) \<le> 1 - 1 \<longrightarrow> precedes (HyperplaneReorder 2 2 2) (1, 1, 1 - 1) (1, 1, 1)"
    by blast
  then have p3: "precedes (HyperplaneReorder 2 2 2) (1, 1, 0) (1, 1, 1)" by simp
  show ?thesis using e hp d s p0 p1 p2 p3 by blast
qed

section \<open>Properties of the manual decomposition\<close>


lemma fold_upd_nth_aux:
  "\<forall>g. length g = n \<longrightarrow> (\<forall>x \<in> set xs. 0 \<le> x \<and> x < int n) \<longrightarrow> distinct xs \<longrightarrow>
     length (fold (\<lambda>ii g. g[nat ii := f ii (g ! nat ii)]) xs g) = n \<and>
     (\<forall>m < n. fold (\<lambda>ii g. g[nat ii := f ii (g ! nat ii)]) xs g ! m =
        (if int m \<in> set xs then f (int m) (g ! m) else g ! m))"
proof (induction xs)
  case Nil
  then show ?case by simp
next
  case (Cons a xs)
  show ?case
  proof (intro allI impI)
    fix g :: "'a list"
    assume l: "length g = n" and r: "\<forall>x \<in> set (a # xs). 0 \<le> x \<and> x < int n" and d: "distinct (a # xs)"
    let ?g1 = "g[nat a := f a (g ! nat a)]"
    have l1: "length ?g1 = n" using l by simp
    have ih: "length (fold (\<lambda>ii g. g[nat ii := f ii (g ! nat ii)]) xs ?g1) = n \<and>
     (\<forall>m < n. fold (\<lambda>ii g. g[nat ii := f ii (g ! nat ii)]) xs ?g1 ! m =
        (if int m \<in> set xs then f (int m) (?g1 ! m) else ?g1 ! m))"
      using Cons l1 r d by simp
    have a: "0 \<le> a" "nat a < n" "a \<notin> set xs" using r d by auto
    show "length (fold (\<lambda>ii g. g[nat ii := f ii (g ! nat ii)]) (a # xs) g) = n \<and>
     (\<forall>m < n. fold (\<lambda>ii g. g[nat ii := f ii (g ! nat ii)]) (a # xs) g ! m =
        (if int m \<in> set (a # xs) then f (int m) (g ! m) else g ! m))"
    proof (intro conjI allI impI)
      show "length (fold (\<lambda>ii g. g[nat ii := f ii (g ! nat ii)]) (a # xs) g) = n"
        using ih by simp
    next
      fix m assume m: "m < n"
      show "fold (\<lambda>ii g. g[nat ii := f ii (g ! nat ii)]) (a # xs) g ! m =
        (if int m \<in> set (a # xs) then f (int m) (g ! m) else g ! m)"
      proof (cases "int m = a")
        case True
        then have "nat a = m" by simp
        then show ?thesis using ih m a l True by auto
      next
        case False
        then have "nat a \<noteq> m" using a by auto
        then show ?thesis using ih m a l False by auto
      qed
    qed
  qed
qed

lemma fold_upd_nth:
  assumes "\<forall>x \<in> set xs. 0 \<le> x \<and> x < int (length g)" "distinct xs"
  shows "length (fold (\<lambda>ii g. g[nat ii := f ii (g ! nat ii)]) xs g) = length g"
    and "m < length g \<Longrightarrow> fold (\<lambda>ii g. g[nat ii := f ii (g ! nat ii)]) xs g ! m =
        (if int m \<in> set xs then f (int m) (g ! m) else g ! m)"
  using fold_upd_nth_aux[of "length g" xs f] assms by auto

lemma setRanks_nth:
  assumes "int (length grid) = numProc"
  shows "length (setRanks grid numProc) = length grid"
    and "m < length grid \<Longrightarrow> setRanks grid numProc ! m = (grid ! m)\<lparr>rank := int m\<rparr>"
proof -
  have r: "\<forall>x \<in> set [0..numProc - 1]. 0 \<le> x \<and> x < int (length grid)" using assms by auto
  show "length (setRanks grid numProc) = length grid"
    unfolding setRanks_def using fold_upd_nth(1)[OF r, of "\<lambda>ii b. b\<lparr>rank := ii\<rparr>"] by simp
  show "m < length grid \<Longrightarrow> setRanks grid numProc ! m = (grid ! m)\<lparr>rank := int m\<rparr>"
    unfolding setRanks_def using fold_upd_nth(2)[OF r, of m "\<lambda>ii b. b\<lparr>rank := ii\<rparr>"] assms by auto
qed

lemma setGlobalPositions_nth:
  shows "length (setGlobalPositions grid) = length grid"
    and "m < length grid \<Longrightarrow> setGlobalPositions grid ! m = (grid ! m)\<lparr>globalPos := int m\<rparr>"
proof -
  have r: "\<forall>x \<in> set [0..int (length grid) - 1]. 0 \<le> x \<and> x < int (length grid)" by auto
  show "length (setGlobalPositions grid) = length grid"
    unfolding setGlobalPositions_def using fold_upd_nth(1)[OF r, of "\<lambda>ii b. b\<lparr>globalPos := ii\<rparr>"] by simp
  show "m < length grid \<Longrightarrow> setGlobalPositions grid ! m = (grid ! m)\<lparr>globalPos := int m\<rparr>"
    unfolding setGlobalPositions_def using fold_upd_nth(2)[OF r, of m "\<lambda>ii b. b\<lparr>globalPos := ii\<rparr>"] by auto
qed

lemma setConnectionRanks_ok:
  "\<forall>c \<in> set cs. validBlock grid (blockFirst c) \<and> validBlock grid (blockSecond c) \<Longrightarrow>
   setConnectionRanks grid cs =
     Inr (map (\<lambda>c. c\<lparr>rankFirst := rank (grid ! nat (blockFirst c)),
                       rankSecond := rank (grid ! nat (blockSecond c))\<rparr>) cs)"
  by (induction cs) auto

lemma setConnectionRanks_not_Fatal: "setConnectionRanks grid cs \<noteq> Inl Fatal"
  by (induction cs) (auto split: sum.splits)


text \<open>
  Claim C8. \<open>ManualDecomposition\<close> ends with the fatal error exactly when the number
  of blocks differs from \<open>numProc\<close>. Otherwise, when every connection names blocks of
  the grid, it returns a load-balance vector of length \<open>numProc\<close> whose entries are
  all 1, block \<open>ii\<close> gets rank \<open>ii\<close> and global position \<open>ii\<close> and is otherwise
  unchanged, and the two ranks of every connection are the ranks given to its two blocks.
\<close>

theorem ManualDecomposition_spec:
  "(ManualDecomposition grid numProc connections totalCells = Inl Fatal
      \<longleftrightarrow> int (length grid) \<noteq> numProc) \<and>
   (int (length grid) = numProc \<longrightarrow>
    (\<forall>c \<in> set connections. validBlock grid (blockFirst c) \<and> validBlock grid (blockSecond c)) \<longrightarrow>
    (\<exists>loadBal grid' connections'.
       ManualDecomposition grid numProc connections totalCells = Inr (loadBal, grid', connections') \<and>
       int (length loadBal) = numProc \<and> (\<forall>x \<in> set loadBal. x = 1) \<and>
       length grid' = length grid \<and>
       (\<forall>ii < length grid. grid' ! ii = (grid ! ii)\<lparr>rank := int ii, globalPos := int ii\<rparr>) \<and>
       length connections' = length connections \<and>
       (\<forall>n < length connections.
          connections' ! n = (connections ! n)
            \<lparr>rankFirst := rank (grid' ! nat (blockFirst (connections ! n))),
             rankSecond := rank (grid' ! nat (blockSecond (connections ! n)))\<rparr>)))"
proof (intro conjI impI)
  show "ManualDecomposition grid numProc connections totalCells = Inl Fatal
      \<longleftrightarrow> int (length grid) \<noteq> numProc"
    using setConnectionRanks_not_Fatal
    by (auto simp: ManualDecomposition_def Let_def split: sum.splits)
next
  assume n: "int (length grid) = numProc"
    and v: "\<forall>c \<in> set connections. validBlock grid (blockFirst c) \<and> validBlock grid (blockSecond c)"
  let ?g1 = "setRanks grid numProc"
  let ?g2 = "setGlobalPositions ?g1"
  let ?cs = "map (\<lambda>c. c\<lparr>rankFirst := rank (?g2 ! nat (blockFirst c)),
                       rankSecond := rank (?g2 ! nat (blockSecond c))\<rparr>) connections"
  have l: "length ?g2 = length grid"
    using setRanks_nth(1)[OF n] setGlobalPositions_nth(1)[of ?g1] by simp
  have g: "?g2 ! ii = (grid ! ii)\<lparr>rank := int ii, globalPos := int ii\<rparr>" if "ii < length grid" for ii
    using setRanks_nth[OF n] setGlobalPositions_nth[where grid = ?g1] that by simp
  have v2: "\<forall>c \<in> set connections. validBlock ?g2 (blockFirst c) \<and> validBlock ?g2 (blockSecond c)"
    using v l by (simp add: validBlock_def)
  have r: "ManualDecomposition grid numProc connections totalCells
             = Inr (replicate (nat numProc) 1, ?g2, ?cs)"
    using n setConnectionRanks_ok[OF v2] by (simp add: ManualDecomposition_def Let_def)
  show "\<exists>loadBal grid' connections'.
       ManualDecomposition grid numProc connections totalCells = Inr (loadBal, grid', connections') \<and>
       int (length loadBal) = numProc \<and> (\<forall>x \<in> set loadBal. x = 1) \<and>
       length grid' = length grid \<and>
       (\<forall>ii < length grid. grid' ! ii = (grid ! ii)\<lparr>rank := int ii, globalPos := int ii\<rparr>) \<and>
       length connections' = length connections \<and>
       (\<forall>n < length connections.
          connections' ! n = (connections ! n)
            \<lparr>rankFirst := rank (grid' ! nat (blockFirst (connections ! n))),
             rankSecond := rank (grid' ! nat (blockSecond (connections ! n)))\<rparr>)"
    unfolding r using l g n by auto
qed

theorem ManualDecomposition_spec_witness:
  "(case ManualDecomposition [defaultBlock, defaultBlock] 2 [exampleConnection] 2 of
      Inl e \<Rightarrow> False
    | Inr (loadBal, grid', connections') \<Rightarrow>
        loadBal = [1, 1] \<and> map rank grid' = [0, 1] \<and> map globalPos grid' = [0, 1] \<and>
        map rankFirst connections' = [0] \<and> map rankSecond connections' = [1]) \<and>
   ManualDecomposition [defaultBlock] 2 [exampleConnection] 1 = Inl Fatal"
proof -
  have v: "\<forall>c \<in> set [exampleConnection].
             validBlock [defaultBlock, defaultBlock] (blockFirst c) \<and>
             validBlock [defaultBlock, defaultBlock] (blockSecond c)"
    by (simp add: validBlock_def exampleConnection_def)
  have n: "int (length [defaultBlock, defaultBlock]) = 2" by simp
  from ManualDecomposition_spec[of "[defaultBlock, defaultBlock]" 2 "[exampleConnection]" 2] n v
  obtain loadBal grid' connections' where
    r: "ManualDecomposition [defaultBlock, defaultBlock] 2 [exampleConnection] 2
          = Inr (loadBal, grid', connections')" and
    lb: "int (length loadBal) = 2" "\<forall>x \<in> set loadBal. x = 1" and
    lg: "length grid' = 2" and
    g: "\<forall>ii < 2. grid' ! ii = ([defaultBlock, defaultBlock] ! ii)\<lparr>rank := int ii, globalPos := int ii\<rparr>" and
    lc: "length connections' = 1" and
    c: "\<forall>n < 1. connections' ! n = ([exampleConnection] ! n)
            \<lparr>rankFirst := rank (grid' ! nat (blockFirst ([exampleConnection] ! n))),
             rankSecond := rank (grid' ! nat (blockSecond ([exampleConnection] ! n)))\<rparr>"
    by (auto simp del: One_nat_def)
  have 1: "loadBal = [1, 1]"
    using lb by (cases loadBal; cases "tl loadBal"; cases "tl (tl loadBal)") auto
  have g0: "grid' ! 0 = defaultBlock\<lparr>rank := 0, globalPos := 0\<rparr>" using g by auto
  have g1: "grid' ! 1 = defaultBlock\<lparr>rank := 1, globalPos := 1\<rparr>" using g by auto
  have 2: "map rank grid' = [0, 1]" "map globalPos grid' = [0, 1]"
    using lg g0 g1 by (cases grid'; cases "tl grid'"; cases "tl (tl grid')"; auto)+
  have c0: "connections' ! 0 = exampleConnection
            \<lparr>rankFirst := rank (grid' ! nat (blockFirst exampleConnection)),
             rankSecond := rank (grid' ! nat (blockSecond exampleConnection))\<rparr>"
    using c by auto
  have 3: "map rankFirst connections' = [0]" "map rankSecond connections' = [1]"
    using lc c0 g0 g1 by (cases connections'; auto simp: exampleConnection_def)+
  have 4: "ManualDecomposition [defaultBlock] 2 [exampleConnection] 1 = Inl Fatal"
    using ManualDecomposition_spec[of "[defaultBlock]" 2 "[exampleConnection]" 1] by simp
  show ?thesis using r 1 2 3 4 by simp
qed

section \<open>Arrays, sweeps and the time step\<close>

lemma loc_split:
  fixes i j k nI nJ :: int
  assumes "0 \<le> i" "i < nI" "0 \<le> j" "j < nJ"
  shows "(i + j * nI + k * nI * nJ) mod nI = i"
    and "((i + j * nI + k * nI * nJ) div nI) mod nJ = j"
    and "((i + j * nI + k * nI * nJ) div nI) div nJ = k"
proof -
  have e: "i + j * nI + k * nI * nJ = i + (j + k * nJ) * nI" by (simp add: algebra_simps)
  show "(i + j * nI + k * nI * nJ) mod nI = i" unfolding e using assms by simp
  have d: "(i + (j + k * nJ) * nI) div nI = j + k * nJ" using assms by simp
  show "((i + j * nI + k * nI * nJ) div nI) mod nJ = j" unfolding e d using assms by simp
  show "((i + j * nI + k * nI * nJ) div nI) div nJ = k" unfolding e d using assms by simp
qed

lemma GetLoc1D_inj:
  assumes "inRange a i j k" "inRange a i' j' k'" "GetLoc1D a i j k = GetLoc1D a i' j' k'"
  shows "i = i' \<and> j = j' \<and> k = k'"
proof -
  let ?nI = "arrNumI a" and ?nJ = "arrNumJ a"
  have r: "0 \<le> i" "i < ?nI" "0 \<le> j" "j < ?nJ" "0 \<le> i'" "i' < ?nI" "0 \<le> j'" "j' < ?nJ"
    using assms by (auto simp: inRange_def)
  have e: "i + j * ?nI + k * ?nI * ?nJ = i' + j' * ?nI + k' * ?nI * ?nJ"
    using assms(3) by (simp add: GetLoc1D_def)
  show ?thesis
    using loc_split[OF r(1-4), of k] loc_split[OF r(5-8), of k'] e by metis
qed

lemma GetLoc1D_bound:
  assumes "inRange a i j k"
  shows "0 \<le> GetLoc1D a i j k" "GetLoc1D a i j k < arrNumI a * arrNumJ a * arrNumK a"
proof -
  let ?nI = "arrNumI a" and ?nJ = "arrNumJ a" and ?nK = "arrNumK a"
  have r: "0 \<le> i" "i < ?nI" "0 \<le> j" "j < ?nJ" "0 \<le> k" "k < ?nK"
    using assms by (auto simp: inRange_def)
  show "0 \<le> GetLoc1D a i j k" using r by (simp add: GetLoc1D_def)
  have 1: "i + j * ?nI \<le> (?nI - 1) + (?nJ - 1) * ?nI"
    using r by (intro add_mono mult_right_mono) auto
  have 2: "k * (?nI * ?nJ) \<le> (?nK - 1) * (?nI * ?nJ)"
    using r by (intro mult_right_mono) auto
  have "GetLoc1D a i j k \<le> (?nI - 1) + (?nJ - 1) * ?nI + (?nK - 1) * (?nI * ?nJ)"
    using 1 2 by (simp add: GetLoc1D_def mult.assoc)
  also have "\<dots> < ?nI * ?nJ * ?nK" by (simp add: algebra_simps)
  finally show "GetLoc1D a i j k < ?nI * ?nJ * ?nK" .
qed

lemma at3_set3_same:
  assumes "inRange a i j k" "Size a = arrNumI a * arrNumJ a * arrNumK a"
  shows "at3 (set3 a i j k v) i j k = v"
proof -
  have "nat (GetLoc1D a i j k) < length (arrData a)"
    using GetLoc1D_bound[OF assms(1)] assms(2) by (simp add: Size_def)
  then show ?thesis by (simp add: at3_def set3_def GetLoc1D_def)
qed

lemma at3_set3_other:
  assumes "inRange a i j k" "inRange a i' j' k'" "(i, j, k) \<noteq> (i', j', k')"
  shows "at3 (set3 a i j k v) i' j' k' = at3 a i' j' k'"
proof -
  have "GetLoc1D a i j k \<noteq> GetLoc1D a i' j' k'"
    using GetLoc1D_inj[OF assms(1,2)] assms(3) by auto
  then have "nat (GetLoc1D a i j k) \<noteq> nat (GetLoc1D a i' j' k')"
    using GetLoc1D_bound(1)[OF assms(1)] GetLoc1D_bound(1)[OF assms(2)] by simp
  then show ?thesis by (simp add: at3_def set3_def GetLoc1D_def)
qed

lemma set3_dims [simp]:
  "arrNumI (set3 a i j k v) = arrNumI a" "arrNumJ (set3 a i j k v) = arrNumJ a"
  "arrNumK (set3 a i j k v) = arrNumK a" "Size (set3 a i j k v) = Size a"
  by (simp_all add: set3_def Size_def)

lemma set3_hasDims [simp]: "hasDims (set3 a i j k v) ni nj nk = hasDims a ni nj nk"
  by (simp add: hasDims_def)

lemma set3_inRange [simp]: "inRange (set3 a i j k v) i' j' k' = inRange a i' j' k'"
  by (simp add: inRange_def)

lemma at3c_set3c:
  assumes "inRangeC a c" "inRangeC a c'" "Size a = arrNumI a * arrNumJ a * arrNumK a"
  shows "at3c (set3c a c v) c' = (if c = c' then v else at3c a c')"
proof -
  obtain i j k where c: "c = (i, j, k)" by (cases c)
  obtain i' j' k' where c': "c' = (i', j', k')" by (cases c')
  have r: "inRange a i j k" "inRange a i' j' k'"
    using assms(1,2) by (simp_all add: inRangeC_def c c')
  show ?thesis
  proof (cases "c = c'")
    case True
    then show ?thesis
      using at3_set3_same[OF r(1) assms(3)] by (auto simp: at3c_def set3c_def c c')
  next
    case False
    then have "(i, j, k) \<noteq> (i', j', k')" by (simp add: c c')
    from at3_set3_other[OF r this] False show ?thesis
      by (auto simp: at3c_def set3c_def c c')
  qed
qed

lemma set3c_dims [simp]:
  "arrNumI (set3c a c v) = arrNumI a" "arrNumJ (set3c a c v) = arrNumJ a"
  "arrNumK (set3c a c v) = arrNumK a" "Size (set3c a c v) = Size a"
  by (cases c; simp add: set3c_def)+

lemma set3c_hasDims [simp]: "hasDims (set3c a c v) ni nj nk = hasDims a ni nj nk"
  by (simp add: hasDims_def)

lemma set3c_inRangeC [simp]: "inRangeC (set3c a c v) c' = inRangeC a c'"
  by (cases c; cases c'; simp add: inRangeC_def set3c_def)

lemma sweep_dims [simp]:
  "arrNumI (sweep sh val cs a) = arrNumI a" "arrNumJ (sweep sh val cs a) = arrNumJ a"
  "arrNumK (sweep sh val cs a) = arrNumK a" "Size (sweep sh val cs a) = Size a"
  unfolding sweep_def by (induction cs arbitrary: a; simp)+

lemma sweep_hasDims [simp]: "hasDims (sweep sh val cs a) ni nj nk = hasDims a ni nj nk"
  by (simp add: hasDims_def)

lemma sweep_inRangeC [simp]: "inRangeC (sweep sh val cs a) c = inRangeC a c"
  by (cases c; simp add: inRangeC_def inRange_def)

lemma sweep_at:
  assumes "Size a = arrNumI a * arrNumJ a * arrNumK a"
    and "\<forall>c \<in> set cs. inRangeC a (sh c)" and "inj_on sh (set cs)" and "distinct cs"
    and "inRangeC a p"
  shows "at3c (sweep sh val cs a) p =
           (if p \<in> sh ` set cs then val (the_inv_into (set cs) sh p) (at3c a p) else at3c a p)"
  using assms
proof (induction cs arbitrary: a)
  case Nil
  then show ?case by (simp add: sweep_def)
next
  case (Cons x xs)
  let ?a1 = "set3c a (sh x) (val x (at3c a (sh x)))"
  have s: "sweep sh val (x # xs) a = sweep sh val xs ?a1" by (simp add: sweep_def)
  have inj: "inj_on sh (set xs)" using Cons.prems(3) by (simp add: inj_on_def)
  have ih: "at3c (sweep sh val xs ?a1) p =
           (if p \<in> sh ` set xs then val (the_inv_into (set xs) sh p) (at3c ?a1 p) else at3c ?a1 p)"
    using Cons.prems by (intro Cons.IH) (auto simp: inj)
  have x: "inRangeC a (sh x)" using Cons.prems(2) by simp
  have nx: "sh x \<notin> sh ` set xs" using Cons.prems(3,4) by (auto simp: inj_on_def)
  show ?case
  proof (cases "p = sh x")
    case True
    have "the_inv_into (set (x # xs)) sh (sh x) = x"
      using Cons.prems(3) by (intro the_inv_into_f_f) auto
    then show ?thesis
      using ih nx True at3c_set3c[OF x x Cons.prems(1)] unfolding s by simp
  next
    case False
    have a1: "at3c ?a1 p = at3c a p"
      using at3c_set3c[OF x Cons.prems(5) Cons.prems(1)] False by simp
    show ?thesis
    proof (cases "p \<in> sh ` set xs")
      case True
      then obtain y where y: "y \<in> set xs" "p = sh y" by auto
      have "the_inv_into (set xs) sh (sh y) = y" using inj y by (intro the_inv_into_f_f) auto
      moreover have "the_inv_into (set (x # xs)) sh (sh y) = y"
        using Cons.prems(3) y by (intro the_inv_into_f_f) auto
      ultimately show ?thesis using ih a1 True y False unfolding s by simp
    next
      case False
      then show ?thesis using ih a1 \<open>p \<noteq> sh x\<close> unfolding s by simp
    qed
  qed
qed

lemma sweep_at_in:
  assumes "Size a = arrNumI a * arrNumJ a * arrNumK a"
    and "\<forall>c \<in> set cs. inRangeC a (sh c)" and "inj_on sh (set cs)" and "distinct cs"
    and "c \<in> set cs"
  shows "at3c (sweep sh val cs a) (sh c) = val c (at3c a (sh c))"
proof -
  have "the_inv_into (set cs) sh (sh c) = c" using assms(3,5) by (intro the_inv_into_f_f) auto
  then show ?thesis using sweep_at[OF assms(1-4), of "sh c" val] assms(2,5) by auto
qed

lemma sweep_at_out:
  assumes "Size a = arrNumI a * arrNumJ a * arrNumK a"
    and "\<forall>c \<in> set cs. inRangeC a (sh c)" and "inj_on sh (set cs)" and "distinct cs"
    and "inRangeC a p" "p \<notin> sh ` set cs"
  shows "at3c (sweep sh val cs a) p = at3c a p"
  using sweep_at[OF assms(1-5), of val] assms(6) by simp

text \<open>A loop over a state whose body rewrites one cell of one array.\<close>

lemma fold_is_sweep:
  assumes "\<And>c s. c \<in> set cs \<Longrightarrow> I s \<Longrightarrow>
             I (f c s) \<and> get (f c s) = set3c (get s) (sh c) (val c (at3c (get s) (sh c)))"
    and "I s0"
  shows "I (fold f cs s0) \<and> get (fold f cs s0) = sweep sh val cs (get s0)"
  using assms
proof (induction cs arbitrary: s0)
  case Nil
  then show ?case by (simp add: sweep_def)
next
  case (Cons x xs)
  have 1: "I (f x s0)" "get (f x s0) = set3c (get s0) (sh x) (val x (at3c (get s0) (sh x)))"
    using Cons.prems(1)[of x s0] Cons.prems(2) by auto
  have "I (fold f xs (f x s0)) \<and> get (fold f xs (f x s0)) = sweep sh val xs (get (f x s0))"
    using Cons.prems(1) 1(1) by (intro Cons.IH) auto
  then show ?case using 1(2) by (simp add: sweep_def)
qed

lemma foldE_Inr:
  assumes "\<And>x s. x \<in> set xs \<Longrightarrow> f x s = Inr (g x s)"
  shows "foldE f xs s = Inr (fold g xs s)"
  using assms by (induction xs arbitrary: s) auto

lemma cells_distinct:
  "distinct [(ii, jj, kk). kk \<leftarrow> [0..nk - 1], jj \<leftarrow> [0..nj - 1], ii \<leftarrow> [(0::int)..ni - 1]]"
  apply (rule distinct_concat_map, simp)
   apply (rule distinct_concat_map, simp)
     apply (simp add: distinct_map inj_on_def)
    apply (auto)[1]
  apply (auto)[1]
  done

lemma cells_set:
  "set [(ii, jj, kk). kk \<leftarrow> [0..nk - 1], jj \<leftarrow> [0..nj - 1], ii \<leftarrow> [(0::int)..ni - 1]] =
     {(i, j, k). 0 \<le> i \<and> i < ni \<and> 0 \<le> j \<and> j < nj \<and> 0 \<le> k \<and> k < nk}"
  by (auto simp: image_iff)

lemma physicalCells_distinct: "distinct (physicalCells b)"
  unfolding physicalCells_def by (rule cells_distinct)

lemma physicalCells_set:
  "set (physicalCells b) =
     {(i, j, k). 0 \<le> i \<and> i < NumI b \<and> 0 \<le> j \<and> j < NumJ b \<and> 0 \<le> k \<and> k < NumK b}"
  unfolding physicalCells_def by (rule cells_set)

lemma physicalFaces_distinct: "distinct (physicalFaces d b)"
  unfolding physicalFaces_def by (rule cells_distinct)

lemma physicalFaces_set:
  "set (physicalFaces d b) =
     {(i, j, k). 0 \<le> i \<and> i < arrNumI (fArea d b) - 2 * numGhosts b \<and>
                 0 \<le> j \<and> j < arrNumJ (fArea d b) - 2 * numGhosts b \<and>
                 0 \<le> k \<and> k < arrNumK (fArea d b) - 2 * numGhosts b}"
  unfolding physicalFaces_def by (rule cells_set)

lemma CalcBlockTimeStep_fixed:
  assumes "Dt inputVars > 0"
  shows "CalcBlockTimeStep inputVars aRef b =
           Inr (b\<lparr>dt := sweep (\<lambda>c. c) (\<lambda>c v. Dt inputVars * aRef / LRef inputVars)
                            (physicalCells b) (dt b)\<rparr>)"
proof -
  let ?g = "\<lambda>c b. b\<lparr>dt := set3c (dt b) c (Dt inputVars * aRef / LRef inputVars)\<rparr>"
  have 1: "CalcBlockTimeStep inputVars aRef b = Inr (fold ?g (physicalCells b) b)"
    unfolding CalcBlockTimeStep_def
    by (rule foldE_Inr) (auto simp: CalcBlockTimeStepCell_def set3c_def assms)
  have "(\<exists>a. fold ?g (physicalCells b) b = b\<lparr>dt := a\<rparr>) \<and>
        dt (fold ?g (physicalCells b) b) =
          sweep (\<lambda>c. c) (\<lambda>c v. Dt inputVars * aRef / LRef inputVars) (physicalCells b) (dt b)"
    by (rule fold_is_sweep[where I = "\<lambda>s. \<exists>a. s = b\<lparr>dt := a\<rparr>"]) (auto intro: exI[of _ "dt b"])
  then show ?thesis using 1 by auto
qed

lemma CalcBlockTimeStep_cfl:
  assumes "\<not> Dt inputVars > 0" "CFL inputVars > 0"
  shows "CalcBlockTimeStep inputVars aRef b =
           Inr (b\<lparr>dt := sweep (\<lambda>c. c) (\<lambda>c v. CFL inputVars *
                               (at3c (vol b) (withGhosts b c) / at3c (avgWaveSpeed b) c))
                            (physicalCells b) (dt b)\<rparr>)"
proof -
  let ?g = "\<lambda>c b. b\<lparr>dt := set3c (dt b) c (CFL inputVars *
                               (at3c (vol b) (withGhosts b c) / at3c (avgWaveSpeed b) c))\<rparr>"
  have 1: "CalcBlockTimeStep inputVars aRef b = Inr (fold ?g (physicalCells b) b)"
    unfolding CalcBlockTimeStep_def
    by (rule foldE_Inr)
       (auto simp: CalcBlockTimeStepCell_def CalcCellDt_def set3c_def at3c_def withGhosts_def assms)
  have "(\<exists>a. fold ?g (physicalCells b) b = b\<lparr>dt := a\<rparr>) \<and>
        dt (fold ?g (physicalCells b) b) =
          sweep (\<lambda>c. c) (\<lambda>c v. CFL inputVars *
                      (at3c (vol b) (withGhosts b c) / at3c (avgWaveSpeed b) c))
                (physicalCells b) (dt b)"
    by (rule fold_is_sweep[where I = "\<lambda>s. \<exists>a. s = b\<lparr>dt := a\<rparr>"])
       (auto intro: exI[of _ "dt b"] simp: withGhosts_def)
  then show ?thesis using 1 by auto
qed

lemma CalcBlockTimeStep_fatal:
  assumes "\<not> Dt inputVars > 0" "\<not> CFL inputVars > 0" "0 < NumI b" "0 < NumJ b" "0 < NumK b"
  shows "hd (physicalCells b) = (0, 0, 0)"
    and "CalcBlockTimeStepCell inputVars aRef (0, 0, 0) b = Inl Fatal"
    and "CalcBlockTimeStep inputVars aRef b = Inl Fatal"
proof -
  have u: "[0..n - 1] = 0 # [1..n - 1]" if "0 < n" for n :: int
    using that by (simp add: upto_rec1)
  obtain cs where cs: "physicalCells b = (0, 0, 0) # cs"
    unfolding physicalCells_def using u[OF assms(3)] u[OF assms(4)] u[OF assms(5)] by simp
  show "hd (physicalCells b) = (0, 0, 0)" using cs by simp
  show 2: "CalcBlockTimeStepCell inputVars aRef (0, 0, 0) b = Inl Fatal"
    using assms by (simp add: CalcBlockTimeStepCell_def)
  show "CalcBlockTimeStep inputVars aRef b = Inl Fatal"
    unfolding CalcBlockTimeStep_def cs using 2 by simp
qed

lemma wfBlock_dt:
  assumes "wfBlock b"
  shows "Size (dt b) = arrNumI (dt b) * arrNumJ (dt b) * arrNumK (dt b)"
    and "\<forall>c \<in> set (physicalCells b). inRangeC (dt b) c"
  using assms
  by (auto simp: wfBlock_def Let_def hasDims_def physicalCells_set inRangeC_def inRange_def)

text \<open>
  Claim C10. When neither the fixed time step nor the CFL number is positive and the block
  has an interior cell, the loop of \<open>CalcBlockTimeStep\<close> starts at cell (0, 0, 0), the
  body fails there, and the call ends with the fatal error, so no block with a written
  time step is returned. When both are positive (the reference length being non-zero), the
  call returns, only \<open>dt\<close> differs from the block passed in, and every interior cell
  holds the fixed value \<open>Dt * aRef / LRef\<close>.
\<close>

theorem CalcBlockTimeStep_needs_dt_or_cfl:
  "(\<not> Dt inputVars > 0 \<and> \<not> CFL inputVars > 0 \<and> 0 < NumI b \<and> 0 < NumJ b \<and> 0 < NumK b \<longrightarrow>
      hd (physicalCells b) = (0, 0, 0) \<and>
      CalcBlockTimeStepCell inputVars aRef (0, 0, 0) b = Inl Fatal \<and>
      CalcBlockTimeStep inputVars aRef b = Inl Fatal) \<and>
   (Dt inputVars > 0 \<and> CFL inputVars > 0 \<and> LRef inputVars \<noteq> 0 \<and> wfBlock b \<longrightarrow>
      (\<exists>b'. CalcBlockTimeStep inputVars aRef b = Inr b' \<and> b' = b\<lparr>dt := dt b'\<rparr> \<and>
            (\<forall>c \<in> set (physicalCells b).
               at3c (dt b') c = Dt inputVars * aRef / LRef inputVars)))"
proof -
  have fatal: "hd (physicalCells b) = (0, 0, 0) \<and>
      CalcBlockTimeStepCell inputVars aRef (0, 0, 0) b = Inl Fatal \<and>
      CalcBlockTimeStep inputVars aRef b = Inl Fatal"
    if h: "\<not> Dt inputVars > 0" "\<not> CFL inputVars > 0" "0 < NumI b" "0 < NumJ b" "0 < NumK b"
    using CalcBlockTimeStep_fatal[OF h] by simp
  have fixed: "\<exists>b'. CalcBlockTimeStep inputVars aRef b = Inr b' \<and> b' = b\<lparr>dt := dt b'\<rparr> \<and>
            (\<forall>c \<in> set (physicalCells b).
               at3c (dt b') c = Dt inputVars * aRef / LRef inputVars)"
    if a: "Dt inputVars > 0" "wfBlock b"
  proof -
    let ?v = "\<lambda>(c::int \<times> int \<times> int) v::real. Dt inputVars * aRef / LRef inputVars"
    let ?b' = "b\<lparr>dt := sweep (\<lambda>c. c) ?v (physicalCells b) (dt b)\<rparr>"
    have 1: "CalcBlockTimeStep inputVars aRef b = Inr ?b'"
      using a CalcBlockTimeStep_fixed by blast
    have 2: "at3c (dt ?b') c = Dt inputVars * aRef / LRef inputVars"
      if "c \<in> set (physicalCells b)" for c
      using sweep_at_in[OF wfBlock_dt[OF a(2)] _ physicalCells_distinct that, where val = ?v]
      by simp
    show ?thesis using 1 2 by (intro exI[of _ ?b']) simp
  qed
  show ?thesis using fatal fixed by blast
qed

lemma set3c_same [simp]: "set3c a c (at3c a c) = a"
  by (cases c) (simp add: set3c_def at3c_def set3_def at3_def)

lemma fold_is_sweep_filter:
  assumes "\<And>c s. c \<in> set cs \<Longrightarrow> I s \<Longrightarrow> P c \<Longrightarrow>
             I (f c s) \<and> get (f c s) = set3c (get s) (sh c) (val c (at3c (get s) (sh c)))"
    and "\<And>c s. c \<in> set cs \<Longrightarrow> I s \<Longrightarrow> \<not> P c \<Longrightarrow> I (f c s) \<and> get (f c s) = get s"
    and "I s0"
  shows "I (fold f cs s0) \<and> get (fold f cs s0) = sweep sh val (filter P cs) (get s0)"
  using assms
proof (induction cs arbitrary: s0)
  case Nil
  then show ?case by (simp add: sweep_def)
next
  case (Cons x xs)
  have i: "I (f x s0)" using Cons.prems(1)[of x s0] Cons.prems(2)[of x s0] Cons.prems(3) by auto
  have ih: "I (fold f xs (f x s0)) \<and>
        get (fold f xs (f x s0)) = sweep sh val (filter P xs) (get (f x s0))"
    using Cons.prems(1,2) i by (intro Cons.IH) auto
  show ?case
  proof (cases "P x")
    case True
    then have "get (f x s0) = set3c (get s0) (sh x) (val x (at3c (get s0) (sh x)))"
      using Cons.prems(1)[of x s0] Cons.prems(3) by auto
    then show ?thesis using ih True by (simp add: sweep_def)
  next
    case False
    then have "get (f x s0) = get s0"
      using Cons.prems(2)[of x s0] Cons.prems(3) by auto
    then show ?thesis using ih False by (simp add: sweep_def)
  qed
qed

lemma sameDims_refl [simp]: "sameDims a a"
  by (simp add: sameDims_def)

lemma sameDims_set3c [simp]: "sameDims (set3c a c v) a' = sameDims a a'"
  by (simp add: sameDims_def)

lemma sameDims_sweep [simp]: "sameDims (sweep sh val cs a) a' = sameDims a a'"
  by (simp add: sameDims_def)

lemma sameDims_hasDims: "sameDims a a' \<Longrightarrow> hasDims a ni nj nk = hasDims a' ni nj nk"
  by (auto simp: sameDims_def hasDims_def)

lemma sameDims_inRangeC: "sameDims a a' \<Longrightarrow> inRangeC a c = inRangeC a' c"
  by (cases c) (auto simp: sameDims_def inRangeC_def inRange_def)

lemma sameGeom_refl [simp]: "sameGeom b b"
  unfolding sameGeom_def
  by (rule exI[of _ "residual b"], rule exI[of _ "avgWaveSpeed b"]) simp

lemma sameGeomI:
  "sameDims r (residual b) \<Longrightarrow> sameDims a (avgWaveSpeed b) \<Longrightarrow>
   sameGeom (b\<lparr>residual := r, avgWaveSpeed := a\<rparr>) b"
  unfolding sameGeom_def by blast

lemma sameGeomE:
  assumes "sameGeom s b"
  obtains r a where "s = b\<lparr>residual := r, avgWaveSpeed := a\<rparr>"
    "sameDims r (residual b)" "sameDims a (avgWaveSpeed b)"
  using assms unfolding sameGeom_def by blast

lemma sameGeom_fields:
  assumes "sameGeom s b"
  shows "state s = state b" "vol s = vol b" "dt s = dt b" "numGhosts s = numGhosts b"
    "fArea d s = fArea d b" "NumI s = NumI b" "NumJ s = NumJ b" "NumK s = NumK b"
    "physicalCells s = physicalCells b" "physicalFaces d s = physicalFaces d b"
    "withGhosts s = withGhosts b" "wfBlock s = wfBlock b"
    "sameDims (residual s) (residual b)" "sameDims (avgWaveSpeed s) (avgWaveSpeed b)"
proof -
  from assms obtain r a where e: "s = b\<lparr>residual := r, avgWaveSpeed := a\<rparr>"
    and r: "sameDims r (residual b)" and a: "sameDims a (avgWaveSpeed b)"
    by (rule sameGeomE)
  show 1: "state s = state b" "vol s = vol b" "dt s = dt b" "numGhosts s = numGhosts b"
    by (simp_all add: e)
  show 2: "fArea d s = fArea d b" by (cases d; simp add: e)
  show 3: "NumI s = NumI b" "NumJ s = NumJ b" "NumK s = NumK b"
    using r by (simp_all add: NumI_def NumJ_def NumK_def sameDims_def e)
  show "physicalCells s = physicalCells b" by (simp add: physicalCells_def 3)
  show "physicalFaces d s = physicalFaces d b" by (simp add: physicalFaces_def 1 2)
  show "withGhosts s = withGhosts b" by (rule ext) (simp add: withGhosts_def 1)
  show "wfBlock s = wfBlock b"
    using sameDims_hasDims[OF r] sameDims_hasDims[OF a]
    by (simp add: wfBlock_def Let_def e NumI_def NumJ_def NumK_def r[unfolded sameDims_def])
  show "sameDims (residual s) (residual b)" "sameDims (avgWaveSpeed s) (avgWaveSpeed b)"
    using r a by (simp_all add: e)
qed

lemma sameDims_trans: "sameDims a a' \<Longrightarrow> sameDims a' a'' \<Longrightarrow> sameDims a a''"
  by (simp add: sameDims_def)

lemma sameGeom_trans:
  assumes "sameGeom s t" "sameGeom t b"
  shows "sameGeom s b"
proof -
  from assms(2) obtain r a where t: "t = b\<lparr>residual := r, avgWaveSpeed := a\<rparr>"
    and r: "sameDims r (residual b)" and a: "sameDims a (avgWaveSpeed b)"
    by (rule sameGeomE)
  from assms(1) obtain r' a' where s: "s = t\<lparr>residual := r', avgWaveSpeed := a'\<rparr>"
    and r': "sameDims r' (residual t)" and a': "sameDims a' (avgWaveSpeed t)"
    by (rule sameGeomE)
  have "s = b\<lparr>residual := r', avgWaveSpeed := a'\<rparr>" by (simp add: s t)
  moreover have "sameDims r' (residual b)" using r' r by (simp add: t sameDims_def)
  moreover have "sameDims a' (avgWaveSpeed b)" using a' a by (simp add: t sameDims_def)
  ultimately show ?thesis unfolding sameGeom_def by blast
qed

lemma residual_update_sameGeom:
  assumes "sameGeom s b"
  shows "sameGeom (s\<lparr>residual := set3c (residual s) c v\<rparr>) b"
proof -
  from assms obtain r a where e: "s = b\<lparr>residual := r, avgWaveSpeed := a\<rparr>"
    and r: "sameDims r (residual b)" and a: "sameDims a (avgWaveSpeed b)"
    by (rule sameGeomE)
  have "s\<lparr>residual := set3c (residual s) c v\<rparr> = b\<lparr>residual := set3c r c v, avgWaveSpeed := a\<rparr>"
    by (simp add: e)
  then show ?thesis using sameGeomI[of "set3c r c v" b a] r a by simp
qed

lemma aws_update_sameGeom:
  assumes "sameGeom s b"
  shows "sameGeom (s\<lparr>avgWaveSpeed := set3c (avgWaveSpeed s) c v\<rparr>) b"
proof -
  from assms obtain r a where e: "s = b\<lparr>residual := r, avgWaveSpeed := a\<rparr>"
    and r: "sameDims r (residual b)" and a: "sameDims a (avgWaveSpeed b)"
    by (rule sameGeomE)
  have "s\<lparr>avgWaveSpeed := set3c (avgWaveSpeed s) c v\<rparr> = b\<lparr>residual := r, avgWaveSpeed := set3c a c v\<rparr>"
    by (simp add: e)
  then show ?thesis using sameGeomI[of r b "set3c a c v"] r a by simp
qed

lemma AddToResidual_sameGeom: "sameGeom s b \<Longrightarrow> sameGeom (AddToResidual s flux c) b"
  unfolding AddToResidual_def by (rule residual_update_sameGeom)

lemma AddToResidualVisc_sameGeom: "sameGeom s b \<Longrightarrow> sameGeom (AddToResidualVisc s flux c) b"
  unfolding AddToResidualVisc_def by (rule residual_update_sameGeom)

lemma AddToResidual_aws [simp]: "avgWaveSpeed (AddToResidual s flux c) = avgWaveSpeed s"
  by (simp add: AddToResidual_def)

lemma AddToResidualVisc_aws [simp]: "avgWaveSpeed (AddToResidualVisc s flux c) = avgWaveSpeed s"
  by (simp add: AddToResidualVisc_def)

lemma CalcInvFluxFace_step:
  assumes "sameGeom s b"
  shows "sameGeom (CalcInvFluxFace d roeFlux specRad p s) b"
    and "upperCond d b p \<Longrightarrow> avgWaveSpeed (CalcInvFluxFace d roeFlux specRad p s) =
           set3c (avgWaveSpeed s) p
             (at3c (avgWaveSpeed s) p +
              specRad (at3c (fArea d b) (withGhosts b p))
                      (at3c (fArea d b) (stepDir d 1 (withGhosts b p)))
                      (at3c (state b) (withGhosts b p)))"
    and "\<not> upperCond d b p \<Longrightarrow>
           avgWaveSpeed (CalcInvFluxFace d roeFlux specRad p s) = avgWaveSpeed s"
proof -
  note f = sameGeom_fields[OF assms]
  let ?b1 = "if dirIndex d (withGhosts b p) > numGhosts b
             then AddToResidual s (genArray_scale (mag (at3c (fArea d b) (withGhosts b p)))
                     (roeFlux d s (withGhosts b p))) (stepDir d (- 1) p)
             else s"
  have b1: "sameGeom ?b1 b" using assms by (simp add: AddToResidual_sameGeom)
  note f1 = sameGeom_fields[OF b1]
  let ?b2 = "AddToResidual ?b1 (genArray_scale (mag (at3c (fArea d b) (withGhosts b p)))
                             (genArray_scale (- 1) (roeFlux d s (withGhosts b p)))) p"
  have b2: "sameGeom ?b2 b" using b1 by (rule AddToResidual_sameGeom)
  note f2 = sameGeom_fields[OF b2]
  have e: "CalcInvFluxFace d roeFlux specRad p s =
        (if upperCond d b p
         then ?b2\<lparr>avgWaveSpeed := set3c (avgWaveSpeed ?b2) p
                        (at3c (avgWaveSpeed ?b2) p +
                         specRad (at3c (fArea d b) (withGhosts b p))
                                 (at3c (fArea d b) (stepDir d 1 (withGhosts b p)))
                                 (at3c (state b) (withGhosts b p)))\<rparr>
         else ?b1)"
    unfolding CalcInvFluxFace_def Let_def upperCond_def
    by (simp add: f(1,4,5,11) f1(1,4,5,11) f2(1,4,5,11) cong: if_cong)
  show "sameGeom (CalcInvFluxFace d roeFlux specRad p s) b"
    unfolding e using b1 aws_update_sameGeom[OF b2] by simp
  show "upperCond d b p \<Longrightarrow> avgWaveSpeed (CalcInvFluxFace d roeFlux specRad p s) =
           set3c (avgWaveSpeed s) p
             (at3c (avgWaveSpeed s) p +
              specRad (at3c (fArea d b) (withGhosts b p))
                      (at3c (fArea d b) (stepDir d 1 (withGhosts b p)))
                      (at3c (state b) (withGhosts b p)))"
    unfolding e by simp
  show "\<not> upperCond d b p \<Longrightarrow>
           avgWaveSpeed (CalcInvFluxFace d roeFlux specRad p s) = avgWaveSpeed s"
    unfolding e by simp
qed

lemma wfBlock_faceDims:
  assumes "wfBlock b"
  shows "arrNumI (fAreaI b) = NumI b + 2 * numGhosts b + 1"
    and "arrNumJ (fAreaI b) = NumJ b + 2 * numGhosts b"
    and "arrNumK (fAreaI b) = NumK b + 2 * numGhosts b"
    and "arrNumI (fAreaJ b) = NumI b + 2 * numGhosts b"
    and "arrNumJ (fAreaJ b) = NumJ b + 2 * numGhosts b + 1"
    and "arrNumK (fAreaJ b) = NumK b + 2 * numGhosts b"
    and "arrNumI (fAreaK b) = NumI b + 2 * numGhosts b"
    and "arrNumJ (fAreaK b) = NumJ b + 2 * numGhosts b"
    and "arrNumK (fAreaK b) = NumK b + 2 * numGhosts b + 1"
  using assms by (simp_all add: wfBlock_def Let_def hasDims_def)

lemma upperFaces_set:
  assumes "wfBlock b"
  shows "set (filter (upperCond d b) (physicalFaces d b)) = set (physicalCells b)"
proof (rule set_eqI)
  fix p :: "int \<times> int \<times> int"
  obtain i j k where p: "p = (i, j, k)" by (cases p)
  note fd = wfBlock_faceDims[OF assms]
  show "p \<in> set (filter (upperCond d b) (physicalFaces d b)) \<longleftrightarrow> p \<in> set (physicalCells b)"
  proof (cases d)
    case DirI
    show ?thesis
      unfolding set_filter physicalFaces_set physicalCells_set p upperCond_def withGhosts_def DirI
      by (simp add: fd) linarith
  next
    case DirJ
    show ?thesis
      unfolding set_filter physicalFaces_set physicalCells_set p upperCond_def withGhosts_def DirJ
      by (simp add: fd) linarith
  next
    case DirK
    show ?thesis
      unfolding set_filter physicalFaces_set physicalCells_set p upperCond_def withGhosts_def DirK
      by (simp add: fd) linarith
  qed
qed

lemma CalcViscFluxFace_step:
  assumes "sameGeom s b"
  shows "sameGeom (CalcViscFluxFace d viscFlux viscSpecRad eddyVisc p s) b"
    and "upperCond d b p \<Longrightarrow>
         avgWaveSpeed (CalcViscFluxFace d viscFlux viscSpecRad eddyVisc p s) =
           set3c (avgWaveSpeed s) p
             (at3c (avgWaveSpeed s) p +
              vCoeff * viscSpecRad (at3c (fArea d b) (withGhosts b p))
                         (at3c (fArea d b) (stepDir d 1 (withGhosts b p)))
                         (at3c (state b) (withGhosts b p)) (at3c (vol b) (withGhosts b p))
                         (eddyVisc d (at3c (state b) (withGhosts b p)) p))"
    and "\<not> upperCond d b p \<Longrightarrow>
           avgWaveSpeed (CalcViscFluxFace d viscFlux viscSpecRad eddyVisc p s) = avgWaveSpeed s"
proof -
  note f = sameGeom_fields[OF assms]
  let ?b1 = "if dirIndex d (withGhosts b p) > numGhosts b
             then AddToResidualVisc s (genArray_scale (mag (at3c (fArea d b) (withGhosts b p)))
                     (genArray_scale (- 1) (viscFlux d s (withGhosts b p)))) (stepDir d (- 1) p)
             else s"
  have b1: "sameGeom ?b1 b" using assms by (simp add: AddToResidualVisc_sameGeom)
  note f1 = sameGeom_fields[OF b1]
  let ?b2 = "AddToResidualVisc ?b1 (genArray_scale (mag (at3c (fArea d b) (withGhosts b p)))
                             (viscFlux d s (withGhosts b p))) p"
  have b2: "sameGeom ?b2 b" using b1 by (rule AddToResidualVisc_sameGeom)
  note f2 = sameGeom_fields[OF b2]
  have e: "CalcViscFluxFace d viscFlux viscSpecRad eddyVisc p s =
        (if upperCond d b p
         then ?b2\<lparr>avgWaveSpeed := set3c (avgWaveSpeed ?b2) p
                        (at3c (avgWaveSpeed ?b2) p +
                         vCoeff * viscSpecRad (at3c (fArea d b) (withGhosts b p))
                                 (at3c (fArea d b) (stepDir d 1 (withGhosts b p)))
                                 (at3c (state b) (withGhosts b p)) (at3c (vol b) (withGhosts b p))
                                 (eddyVisc d (at3c (state b) (withGhosts b p)) p))\<rparr>
         else ?b1)"
    unfolding CalcViscFluxFace_def Let_def upperCond_def
    by (simp add: f(1,2,4,5,11) f1(1,2,4,5,11) f2(1,2,4,5,11) cong: if_cong)
  show "sameGeom (CalcViscFluxFace d viscFlux viscSpecRad eddyVisc p s) b"
    unfolding e using b1 aws_update_sameGeom[OF b2] by simp
  show "upperCond d b p \<Longrightarrow>
         avgWaveSpeed (CalcViscFluxFace d viscFlux viscSpecRad eddyVisc p s) =
           set3c (avgWaveSpeed s) p
             (at3c (avgWaveSpeed s) p +
              vCoeff * viscSpecRad (at3c (fArea d b) (withGhosts b p))
                         (at3c (fArea d b) (stepDir d 1 (withGhosts b p)))
                         (at3c (state b) (withGhosts b p)) (at3c (vol b) (withGhosts b p))
                         (eddyVisc d (at3c (state b) (withGhosts b p)) p))"
    unfolding e by simp
  show "\<not> upperCond d b p \<Longrightarrow>
           avgWaveSpeed (CalcViscFluxFace d viscFlux viscSpecRad eddyVisc p s) = avgWaveSpeed s"
    unfolding e by simp
qed

lemma wfBlock_aws:
  assumes "wfBlock b"
  shows "Size (avgWaveSpeed b) =
           arrNumI (avgWaveSpeed b) * arrNumJ (avgWaveSpeed b) * arrNumK (avgWaveSpeed b)"
    and "\<forall>c \<in> set (physicalCells b). inRangeC (avgWaveSpeed b) c"
proof -
  have h: "hasDims (avgWaveSpeed b) (NumI b) (NumJ b) (NumK b)"
    using assms by (simp add: wfBlock_def Let_def)
  show "Size (avgWaveSpeed b) =
           arrNumI (avgWaveSpeed b) * arrNumJ (avgWaveSpeed b) * arrNumK (avgWaveSpeed b)"
    using h by (simp add: hasDims_def)
  show "\<forall>c \<in> set (physicalCells b). inRangeC (avgWaveSpeed b) c"
    using h by (auto simp: hasDims_def physicalCells_set inRangeC_def inRange_def)
qed

lemma accumulate_at:
  assumes wf: "wfBlock b" and sg: "sameGeom s b" and p: "p \<in> set (physicalCells b)"
  shows "at3c (sweep (\<lambda>c. c) val (filter (upperCond d b) (physicalFaces d b)) (avgWaveSpeed s)) p
           = val p (at3c (avgWaveSpeed s) p)"
proof -
  have wfs: "wfBlock s" using sameGeom_fields(12)[OF sg] wf by simp
  have pc: "physicalCells s = physicalCells b" using sameGeom_fields(9)[OF sg] .
  have r: "\<forall>c \<in> set (filter (upperCond d b) (physicalFaces d b)). inRangeC (avgWaveSpeed s) c"
    using wfBlock_aws(2)[OF wfs] unfolding pc upperFaces_set[OF wf] .
  have m: "p \<in> set (filter (upperCond d b) (physicalFaces d b))"
    using p unfolding upperFaces_set[OF wf] .
  show ?thesis
    by (rule sweep_at_in[OF wfBlock_aws(1)[OF wfs] r _ _ m])
       (simp_all add: physicalFaces_distinct)
qed

lemma CalcInvFlux_aws:
  assumes wf: "wfBlock b" and sg: "sameGeom s b"
  shows "sameGeom (CalcInvFlux d roeFlux specRad s) b"
    and "p \<in> set (physicalCells b) \<Longrightarrow>
         at3c (avgWaveSpeed (CalcInvFlux d roeFlux specRad s)) p =
           at3c (avgWaveSpeed s) p +
           specRad (at3c (fArea d b) (withGhosts b p))
                   (at3c (fArea d b) (stepDir d 1 (withGhosts b p)))
                   (at3c (state b) (withGhosts b p))"
proof -
  let ?val = "\<lambda>p v. v + specRad (at3c (fArea d b) (withGhosts b p))
                   (at3c (fArea d b) (stepDir d 1 (withGhosts b p)))
                   (at3c (state b) (withGhosts b p))"
  have e: "CalcInvFlux d roeFlux specRad s =
             fold (CalcInvFluxFace d roeFlux specRad) (physicalFaces d b) s"
    by (simp add: CalcInvFlux_def sameGeom_fields(10)[OF sg])
  have "sameGeom (fold (CalcInvFluxFace d roeFlux specRad) (physicalFaces d b) s) b \<and>
        avgWaveSpeed (fold (CalcInvFluxFace d roeFlux specRad) (physicalFaces d b) s) =
          sweep (\<lambda>c. c) ?val (filter (upperCond d b) (physicalFaces d b)) (avgWaveSpeed s)"
  proof (rule fold_is_sweep_filter[where I = "\<lambda>x. sameGeom x b"])
    show "sameGeom s b" by (rule sg)
  next
    fix c x assume a: "sameGeom x b" "upperCond d b c"
    then show "sameGeom (CalcInvFluxFace d roeFlux specRad c x) b \<and>
       avgWaveSpeed (CalcInvFluxFace d roeFlux specRad c x) =
       set3c (avgWaveSpeed x) c (?val c (at3c (avgWaveSpeed x) c))"
      using CalcInvFluxFace_step(1,2)[OF a(1)] by simp
  next
    fix c x assume a: "sameGeom x b" "\<not> upperCond d b c"
    then show "sameGeom (CalcInvFluxFace d roeFlux specRad c x) b \<and>
       avgWaveSpeed (CalcInvFluxFace d roeFlux specRad c x) = avgWaveSpeed x"
      using CalcInvFluxFace_step(1,3)[OF a(1)] by simp
  qed
  then have 1: "sameGeom (CalcInvFlux d roeFlux specRad s) b"
    and 2: "avgWaveSpeed (CalcInvFlux d roeFlux specRad s) =
          sweep (\<lambda>c. c) ?val (filter (upperCond d b) (physicalFaces d b)) (avgWaveSpeed s)"
    unfolding e by simp_all
  show "sameGeom (CalcInvFlux d roeFlux specRad s) b" by (rule 1)
  show "p \<in> set (physicalCells b) \<Longrightarrow>
         at3c (avgWaveSpeed (CalcInvFlux d roeFlux specRad s)) p =
           at3c (avgWaveSpeed s) p +
           specRad (at3c (fArea d b) (withGhosts b p))
                   (at3c (fArea d b) (stepDir d 1 (withGhosts b p)))
                   (at3c (state b) (withGhosts b p))"
    unfolding 2 by (rule accumulate_at[OF wf sg])
qed

lemma CalcViscFlux_aws:
  assumes wf: "wfBlock b" and sg: "sameGeom s b"
  shows "sameGeom (CalcViscFlux d viscFlux viscSpecRad eddyVisc s) b"
    and "p \<in> set (physicalCells b) \<Longrightarrow>
         at3c (avgWaveSpeed (CalcViscFlux d viscFlux viscSpecRad eddyVisc s)) p =
           at3c (avgWaveSpeed s) p +
           vCoeff * viscSpecRad (at3c (fArea d b) (withGhosts b p))
                      (at3c (fArea d b) (stepDir d 1 (withGhosts b p)))
                      (at3c (state b) (withGhosts b p)) (at3c (vol b) (withGhosts b p))
                      (eddyVisc d (at3c (state b) (withGhosts b p)) p)"
proof -
  let ?val = "\<lambda>p v. v + vCoeff * viscSpecRad (at3c (fArea d b) (withGhosts b p))
                      (at3c (fArea d b) (stepDir d 1 (withGhosts b p)))
                      (at3c (state b) (withGhosts b p)) (at3c (vol b) (withGhosts b p))
                      (eddyVisc d (at3c (state b) (withGhosts b p)) p)"
  let ?f = "CalcViscFluxFace d viscFlux viscSpecRad eddyVisc"
  have e: "CalcViscFlux d viscFlux viscSpecRad eddyVisc s = fold ?f (physicalFaces d b) s"
    by (simp add: CalcViscFlux_def sameGeom_fields(10)[OF sg])
  have "sameGeom (fold ?f (physicalFaces d b) s) b \<and>
        avgWaveSpeed (fold ?f (physicalFaces d b) s) =
          sweep (\<lambda>c. c) ?val (filter (upperCond d b) (physicalFaces d b)) (avgWaveSpeed s)"
  proof (rule fold_is_sweep_filter[where I = "\<lambda>x. sameGeom x b"])
    show "sameGeom s b" by (rule sg)
  next
    fix c x assume a: "sameGeom x b" "upperCond d b c"
    then show "sameGeom (?f c x) b \<and>
       avgWaveSpeed (?f c x) = set3c (avgWaveSpeed x) c (?val c (at3c (avgWaveSpeed x) c))"
      using CalcViscFluxFace_step(1,2)[OF a(1)] by simp
  next
    fix c x assume a: "sameGeom x b" "\<not> upperCond d b c"
    then show "sameGeom (?f c x) b \<and> avgWaveSpeed (?f c x) = avgWaveSpeed x"
      using CalcViscFluxFace_step(1,3)[OF a(1)] by simp
  qed
  then have 1: "sameGeom (CalcViscFlux d viscFlux viscSpecRad eddyVisc s) b"
    and 2: "avgWaveSpeed (CalcViscFlux d viscFlux viscSpecRad eddyVisc s) =
          sweep (\<lambda>c. c) ?val (filter (upperCond d b) (physicalFaces d b)) (avgWaveSpeed s)"
    unfolding e by simp_all
  show "sameGeom (CalcViscFlux d viscFlux viscSpecRad eddyVisc s) b" by (rule 1)
  show "p \<in> set (physicalCells b) \<Longrightarrow>
         at3c (avgWaveSpeed (CalcViscFlux d viscFlux viscSpecRad eddyVisc s)) p =
           at3c (avgWaveSpeed s) p +
           vCoeff * viscSpecRad (at3c (fArea d b) (withGhosts b p))
                      (at3c (fArea d b) (stepDir d 1 (withGhosts b p)))
                      (at3c (state b) (withGhosts b p)) (at3c (vol b) (withGhosts b p))
                      (eddyVisc d (at3c (state b) (withGhosts b p)) p)"
    unfolding 2 by (rule accumulate_at[OF wf sg])
qed

lemma ResetResidWS_aws:
  assumes wf: "wfBlock b"
  shows "sameGeom (ResetResidWS b) b"
    and "p \<in> set (physicalCells b) \<Longrightarrow> at3c (avgWaveSpeed (ResetResidWS b)) p = 0"
proof -
  let ?f = "\<lambda>c b. b\<lparr>residual := set3c (residual b) c (replicate NUMVARS 0),
                   avgWaveSpeed := set3c (avgWaveSpeed b) c 0\<rparr>"
  have st: "sameGeom (?f c s) b" if "sameGeom s b" for c s
    using aws_update_sameGeom[OF residual_update_sameGeom[OF that]] by simp
  have "sameGeom (fold ?f (physicalCells b) b) b \<and>
        avgWaveSpeed (fold ?f (physicalCells b) b) =
          sweep (\<lambda>c. c) (\<lambda>c v. 0) (physicalCells b) (avgWaveSpeed b)"
  proof (rule fold_is_sweep[where I = "\<lambda>x. sameGeom x b"])
    show "sameGeom b b" by simp
  next
    fix c s assume "sameGeom s b"
    then show "sameGeom (?f c s) b \<and>
        avgWaveSpeed (?f c s) = set3c (avgWaveSpeed s) c 0"
      using st by simp
  qed
  then have 1: "sameGeom (ResetResidWS b) b"
    and 2: "avgWaveSpeed (ResetResidWS b) =
              sweep (\<lambda>c. c) (\<lambda>c v. 0) (physicalCells b) (avgWaveSpeed b)"
    unfolding ResetResidWS_def by simp_all
  show "sameGeom (ResetResidWS b) b" by (rule 1)
  show "p \<in> set (physicalCells b) \<Longrightarrow> at3c (avgWaveSpeed (ResetResidWS b)) p = 0"
    unfolding 2
    using sweep_at_in[OF wfBlock_aws[OF wf] _ physicalCells_distinct, where val = "\<lambda>c v. 0"]
    by simp
qed

lemma assembleFluxes_aws:
  assumes wf: "wfBlock b" and p: "p \<in> set (physicalCells b)"
  shows "sameGeom (assembleFluxes viscous roeFlux specRad viscFlux viscSpecRad eddyVisc b) b"
    and "at3c (avgWaveSpeed (assembleFluxes viscous roeFlux specRad viscFlux viscSpecRad eddyVisc b)) p =
           cellSpecRad specRad DirI b p + cellSpecRad specRad DirJ b p + cellSpecRad specRad DirK b p +
           (if viscous
            then vCoeff * (cellViscSpecRad viscSpecRad eddyVisc DirI b p +
                           cellViscSpecRad viscSpecRad eddyVisc DirJ b p +
                           cellViscSpecRad viscSpecRad eddyVisc DirK b p)
            else 0)"
proof -
  let ?r = "ResetResidWS b"
  let ?i = "CalcInvFlux DirI roeFlux specRad ?r"
  let ?j = "CalcInvFlux DirJ roeFlux specRad ?i"
  let ?k = "CalcInvFlux DirK roeFlux specRad ?j"
  let ?vi = "CalcViscFlux DirI viscFlux viscSpecRad eddyVisc ?k"
  let ?vj = "CalcViscFlux DirJ viscFlux viscSpecRad eddyVisc ?vi"
  let ?vk = "CalcViscFlux DirK viscFlux viscSpecRad eddyVisc ?vj"
  note r = ResetResidWS_aws[OF wf]
  note i = CalcInvFlux_aws[OF wf r(1), where d = DirI and roeFlux = roeFlux and specRad = specRad]
  note j = CalcInvFlux_aws[OF wf i(1), where d = DirJ and roeFlux = roeFlux and specRad = specRad]
  note k = CalcInvFlux_aws[OF wf j(1), where d = DirK and roeFlux = roeFlux and specRad = specRad]
  note vi = CalcViscFlux_aws[OF wf k(1), where d = DirI and viscFlux = viscFlux and viscSpecRad = viscSpecRad and eddyVisc = eddyVisc]
  note vj = CalcViscFlux_aws[OF wf vi(1), where d = DirJ and viscFlux = viscFlux and viscSpecRad = viscSpecRad and eddyVisc = eddyVisc]
  note vk = CalcViscFlux_aws[OF wf vj(1), where d = DirK and viscFlux = viscFlux and viscSpecRad = viscSpecRad and eddyVisc = eddyVisc]
  have e: "assembleFluxes viscous roeFlux specRad viscFlux viscSpecRad eddyVisc b =
             (if viscous then ?vk else ?k)"
    by (simp add: assembleFluxes_def Let_def)
  show "sameGeom (assembleFluxes viscous roeFlux specRad viscFlux viscSpecRad eddyVisc b) b"
    unfolding e using k(1) vk(1) by simp
  have ki: "at3c (avgWaveSpeed ?k) p =
      cellSpecRad specRad DirI b p + cellSpecRad specRad DirJ b p + cellSpecRad specRad DirK b p"
    using r(2)[OF p] i(2)[OF p] j(2)[OF p] k(2)[OF p] by (simp add: cellSpecRad_def)
  have kv: "at3c (avgWaveSpeed ?vk) p = at3c (avgWaveSpeed ?k) p +
      vCoeff * (cellViscSpecRad viscSpecRad eddyVisc DirI b p +
                cellViscSpecRad viscSpecRad eddyVisc DirJ b p +
                cellViscSpecRad viscSpecRad eddyVisc DirK b p)"
    using vi(2)[OF p] vj(2)[OF p] vk(2)[OF p]
    by (simp add: cellViscSpecRad_def algebra_simps)
  show "at3c (avgWaveSpeed (assembleFluxes viscous roeFlux specRad viscFlux viscSpecRad eddyVisc b)) p =
           cellSpecRad specRad DirI b p + cellSpecRad specRad DirJ b p + cellSpecRad specRad DirK b p +
           (if viscous
            then vCoeff * (cellViscSpecRad viscSpecRad eddyVisc DirI b p +
                           cellViscSpecRad viscSpecRad eddyVisc DirJ b p +
                           cellViscSpecRad viscSpecRad eddyVisc DirK b p)
            else 0)"
    unfolding e using ki kv by simp
qed

lemma mkArray_hasDims:
  "0 \<le> ni \<Longrightarrow> 0 \<le> nj \<Longrightarrow> 0 \<le> nk \<Longrightarrow> hasDims (mkArray ni nj nk v) ni nj nk"
  by (simp add: hasDims_def mkArray_def Size_def)

lemma mkArray_dims [simp]:
  "arrNumI (mkArray ni nj nk v) = ni" "arrNumJ (mkArray ni nj nk v) = nj"
  "arrNumK (mkArray ni nj nk v) = nk"
  by (simp_all add: mkArray_def)

lemma allocBlock_wf:
  "0 \<le> ni \<Longrightarrow> 0 \<le> nj \<Longrightarrow> 0 \<le> nk \<Longrightarrow> 0 \<le> numG \<Longrightarrow> wfBlock (allocBlock ni nj nk numG)"
  by (simp add: wfBlock_def Let_def allocBlock_def NumI_def NumJ_def NumK_def mkArray_hasDims)

lemma at3c_mkArray:
  assumes "0 \<le> i" "i < ni" "0 \<le> j" "j < nj" "0 \<le> k" "k < nk"
  shows "at3c (mkArray ni nj nk v) (i, j, k) = v"
proof -
  let ?a = "mkArray ni nj nk v"
  have r: "inRange ?a i j k" using assms by (simp add: inRange_def mkArray_def)
  have "nat (GetLoc1D ?a i j k) < nat (ni * nj * nk)"
    using GetLoc1D_bound[OF r] by (simp add: mkArray_def)
  then show ?thesis by (simp add: at3c_def at3_def mkArray_def)
qed

text \<open>
  Claim C4. Take a well-formed block and run the flux assembly on it. Then the wave speed
  of every interior cell is the sum of its three inviscid spectral radii plus, for a
  viscous run only, \<open>vCoeff\<close> times the sum of its three viscous spectral radii. With no
  fixed time step and a positive CFL number, \<open>CalcBlockTimeStep\<close> returns and gives
  every interior cell whose wave speed is not zero the time step CFL times volume over
  that wave speed; with a fixed time step (and a non-zero reference length) it writes
  \<open>Dt * aRef / LRef\<close> to every interior cell.
\<close>

theorem CalcBlockTimeStep_local_time_step:
  assumes "wfBlock b0"
  shows "\<exists>b. b = assembleFluxes viscous roeFlux specRad viscFlux viscSpecRad eddyVisc b0 \<and>
    (\<forall>p \<in> set (physicalCells b0).
       at3c (avgWaveSpeed b) p =
         cellSpecRad specRad DirI b0 p + cellSpecRad specRad DirJ b0 p +
         cellSpecRad specRad DirK b0 p +
         (if viscous
          then vCoeff * (cellViscSpecRad viscSpecRad eddyVisc DirI b0 p +
                         cellViscSpecRad viscSpecRad eddyVisc DirJ b0 p +
                         cellViscSpecRad viscSpecRad eddyVisc DirK b0 p)
          else 0)) \<and>
    (\<not> Dt inputVars > 0 \<and> CFL inputVars > 0 \<longrightarrow>
       (\<exists>b'. CalcBlockTimeStep inputVars aRef b = Inr b' \<and> b' = b\<lparr>dt := dt b'\<rparr> \<and>
          (\<forall>p \<in> set (physicalCells b0).
             at3c (avgWaveSpeed b) p \<noteq> 0 \<longrightarrow>
             at3c (dt b') p =
               CFL inputVars * at3c (vol b0) (withGhosts b0 p) / at3c (avgWaveSpeed b) p))) \<and>
    (Dt inputVars > 0 \<and> LRef inputVars \<noteq> 0 \<longrightarrow>
       (\<exists>b'. CalcBlockTimeStep inputVars aRef b = Inr b' \<and> b' = b\<lparr>dt := dt b'\<rparr> \<and>
          (\<forall>p \<in> set (physicalCells b0).
             at3c (dt b') p = Dt inputVars * aRef / LRef inputVars)))"
proof -
  let ?b = "assembleFluxes viscous roeFlux specRad viscFlux viscSpecRad eddyVisc b0"
  have sg: "sameGeom ?b b0"
  proof (cases "physicalCells b0")
    case Nil
    have "assembleFluxes viscous roeFlux specRad viscFlux viscSpecRad eddyVisc b0 =
           (if viscous
            then CalcViscFlux DirK viscFlux viscSpecRad eddyVisc
                (CalcViscFlux DirJ viscFlux viscSpecRad eddyVisc
                   (CalcViscFlux DirI viscFlux viscSpecRad eddyVisc
                     (CalcInvFlux DirK roeFlux specRad
                 (CalcInvFlux DirJ roeFlux specRad
                    (CalcInvFlux DirI roeFlux specRad (ResetResidWS b0))))))
            else CalcInvFlux DirK roeFlux specRad
                 (CalcInvFlux DirJ roeFlux specRad
                    (CalcInvFlux DirI roeFlux specRad (ResetResidWS b0))))"
      by (simp add: assembleFluxes_def Let_def)
    then show ?thesis
      using CalcViscFlux_aws(1)[OF assms] CalcInvFlux_aws(1)[OF assms] ResetResidWS_aws(1)[OF assms]
      by simp
  next
    case (Cons p ps)
    then have "p \<in> set (physicalCells b0)" by simp
    then show ?thesis by (rule assembleFluxes_aws(1)[OF assms])
  qed
  note f = sameGeom_fields[OF sg]
  have wf: "wfBlock ?b" using f(12) assms by simp
  have aws: "\<forall>p \<in> set (physicalCells b0).
       at3c (avgWaveSpeed ?b) p =
         cellSpecRad specRad DirI b0 p + cellSpecRad specRad DirJ b0 p +
         cellSpecRad specRad DirK b0 p +
         (if viscous
          then vCoeff * (cellViscSpecRad viscSpecRad eddyVisc DirI b0 p +
                         cellViscSpecRad viscSpecRad eddyVisc DirJ b0 p +
                         cellViscSpecRad viscSpecRad eddyVisc DirK b0 p)
          else 0)"
    using assembleFluxes_aws(2)[OF assms] by blast
  have cfl: "\<exists>b'. CalcBlockTimeStep inputVars aRef ?b = Inr b' \<and> b' = ?b\<lparr>dt := dt b'\<rparr> \<and>
          (\<forall>p \<in> set (physicalCells b0).
             at3c (avgWaveSpeed ?b) p \<noteq> 0 \<longrightarrow>
             at3c (dt b') p =
               CFL inputVars * at3c (vol b0) (withGhosts b0 p) / at3c (avgWaveSpeed ?b) p)"
    if a: "\<not> Dt inputVars > 0" "CFL inputVars > 0"
  proof -
    let ?v = "\<lambda>c (v::real). CFL inputVars *
                (at3c (vol ?b) (withGhosts ?b c) / at3c (avgWaveSpeed ?b) c)"
    let ?b' = "?b\<lparr>dt := sweep (\<lambda>c. c) ?v (physicalCells ?b) (dt ?b)\<rparr>"
    have 1: "CalcBlockTimeStep inputVars aRef ?b = Inr ?b'"
      using CalcBlockTimeStep_cfl[OF a] by blast
    have 2: "at3c (dt ?b') p =
               CFL inputVars * at3c (vol b0) (withGhosts b0 p) / at3c (avgWaveSpeed ?b) p"
      if "p \<in> set (physicalCells b0)" for p
    proof -
      have "p \<in> set (physicalCells ?b)" using that f(9) by simp
      from sweep_at_in[OF wfBlock_dt[OF wf] _ physicalCells_distinct this, where val = ?v]
      show ?thesis by (simp add: f(2,11))
    qed
    show ?thesis using 1 2 by (intro exI[of _ ?b']) simp
  qed
  have fixed: "\<exists>b'. CalcBlockTimeStep inputVars aRef ?b = Inr b' \<and> b' = ?b\<lparr>dt := dt b'\<rparr> \<and>
          (\<forall>p \<in> set (physicalCells b0).
             at3c (dt b') p = Dt inputVars * aRef / LRef inputVars)"
    if a: "Dt inputVars > 0"
  proof -
    let ?v = "\<lambda>(c::int \<times> int \<times> int) v::real. Dt inputVars * aRef / LRef inputVars"
    let ?b' = "?b\<lparr>dt := sweep (\<lambda>c. c) ?v (physicalCells ?b) (dt ?b)\<rparr>"
    have 1: "CalcBlockTimeStep inputVars aRef ?b = Inr ?b'"
      using a CalcBlockTimeStep_fixed by blast
    have 2: "at3c (dt ?b') p = Dt inputVars * aRef / LRef inputVars"
      if "p \<in> set (physicalCells b0)" for p
    proof -
      have "p \<in> set (physicalCells ?b)" using that f(9) by simp
      from sweep_at_in[OF wfBlock_dt[OF wf] _ physicalCells_distinct this, where val = ?v]
      show ?thesis by simp
    qed
    show ?thesis using 1 2 by (intro exI[of _ ?b']) simp
  qed
  show ?thesis using aws cfl fixed by blast
qed

lemma allocBlock_Num [simp]:
  "NumI (allocBlock ni nj nk numG) = ni" "NumJ (allocBlock ni nj nk numG) = nj"
  "NumK (allocBlock ni nj nk numG) = nk" "numGhosts (allocBlock ni nj nk numG) = numG"
  by (simp_all add: allocBlock_def NumI_def NumJ_def NumK_def)

lemma origin_physical:
  "0 < NumI b \<Longrightarrow> 0 < NumJ b \<Longrightarrow> 0 < NumK b \<Longrightarrow> (0, 0, 0) \<in> set (physicalCells b)"
  by (simp add: physicalCells_set)

theorem CalcBlockTimeStep_needs_dt_or_cfl_witness:
  "CalcBlockTimeStep \<lparr>Dt = 0, CFL = 0, LRef = 1, TimeIntegration = ''explicitEuler''\<rparr> 1
     (allocBlock 1 1 1 2) = Inl Fatal \<and>
   (\<exists>b'. CalcBlockTimeStep \<lparr>Dt = 2, CFL = 1, LRef = 4, TimeIntegration = ''explicitEuler''\<rparr> 3
            (allocBlock 1 1 1 2) = Inr b' \<and>
         at3c (dt b') (0, 0, 0) = 3 / 2)"
proof -
  have wf: "wfBlock (allocBlock 1 1 1 2)" by (simp add: allocBlock_wf)
  have o: "(0, 0, 0) \<in> set (physicalCells (allocBlock 1 1 1 2))" by (simp add: origin_physical)
  have 1: "CalcBlockTimeStep \<lparr>Dt = 0, CFL = 0, LRef = 1, TimeIntegration = ''explicitEuler''\<rparr> 1
     (allocBlock 1 1 1 2) = Inl Fatal"
    using CalcBlockTimeStep_needs_dt_or_cfl
            [of "\<lparr>Dt = 0, CFL = 0, LRef = 1, TimeIntegration = ''explicitEuler''\<rparr>"
                "allocBlock 1 1 1 2" 1]
    by simp
  obtain b' where
    b: "CalcBlockTimeStep \<lparr>Dt = 2, CFL = 1, LRef = 4, TimeIntegration = ''explicitEuler''\<rparr> 3
            (allocBlock 1 1 1 2) = Inr b'" and
    d: "\<forall>c \<in> set (physicalCells (allocBlock 1 1 1 2)). at3c (dt b') c = 2 * 3 / 4"
    using CalcBlockTimeStep_needs_dt_or_cfl
            [of "\<lparr>Dt = 2, CFL = 1, LRef = 4, TimeIntegration = ''explicitEuler''\<rparr>"
                "allocBlock 1 1 1 2" 3] wf
    by auto
  have "at3c (dt b') (0, 0, 0) = 3 / 2" using d o by simp
  then show ?thesis using 1 b by blast
qed

lemma exampleBlock_wf: "wfBlock exampleBlock"
  by (simp add: exampleBlock_def allocBlock_def wfBlock_def Let_def NumI_def NumJ_def NumK_def
        mkArray_hasDims)

lemma exampleBlock_cells: "physicalCells exampleBlock = [(0, 0, 0)]"
  by (simp add: physicalCells_def exampleBlock_def NumI_def NumJ_def NumK_def allocBlock_def)

theorem CalcBlockTimeStep_local_time_step_witness:
  "\<exists>b'. CalcBlockTimeStep \<lparr>Dt = 0, CFL = 1 / 2, LRef = 1, TimeIntegration = ''explicitEuler''\<rparr> 1
           (assembleFluxes False (\<lambda>d b g. replicate NUMVARS 0) (\<lambda>l u s. 1)
              (\<lambda>d b g. replicate 6 0) (\<lambda>l u s v e. 0) (\<lambda>d s p. 0) exampleBlock) = Inr b' \<and>
        at3c (dt b') (0, 0, 0) = 1 / 3"
proof -
  let ?inp = "\<lparr>Dt = 0, CFL = 1 / 2, LRef = 1, TimeIntegration = ''explicitEuler''\<rparr>"
  let ?b = "assembleFluxes False (\<lambda>d b g. replicate NUMVARS 0) (\<lambda>l u s. 1)
              (\<lambda>d b g. replicate 6 0) (\<lambda>l u s v e. 0) (\<lambda>d s p. 0) exampleBlock"
  from CalcBlockTimeStep_local_time_step[OF exampleBlock_wf, of False "\<lambda>d b g. replicate NUMVARS 0"
         "\<lambda>l u s. 1" "\<lambda>d b g. replicate 6 0" "\<lambda>l u s v e. 0" "\<lambda>d s p. 0" ?inp 1]
  have a: "at3c (avgWaveSpeed ?b) (0, 0, 0) = 3"
    and t: "\<exists>b'. CalcBlockTimeStep ?inp 1 ?b = Inr b' \<and>
             (at3c (avgWaveSpeed ?b) (0, 0, 0) \<noteq> 0 \<longrightarrow>
              at3c (dt b') (0, 0, 0) =
                (1 / 2) * at3c (vol exampleBlock) (withGhosts exampleBlock (0, 0, 0)) /
                at3c (avgWaveSpeed ?b) (0, 0, 0))"
    by (auto simp: exampleBlock_cells cellSpecRad_def)
  have v: "at3c (vol exampleBlock) (withGhosts exampleBlock (0, 0, 0)) = 2"
    by (simp add: exampleBlock_def withGhosts_def at3c_mkArray)
  show ?thesis using t a v by auto
qed

section \<open>The explicit update\<close>

lemma wfBlock_state:
  assumes "wfBlock b"
  shows "Size (state b) = arrNumI (state b) * arrNumJ (state b) * arrNumK (state b)"
    and "\<forall>c \<in> set (physicalCells b). inRangeC (state b) (withGhosts b c)"
proof -
  have h: "hasDims (state b) (NumI b + 2 * numGhosts b) (NumJ b + 2 * numGhosts b)
             (NumK b + 2 * numGhosts b)" and g: "0 \<le> numGhosts b"
    using assms by (simp_all add: wfBlock_def Let_def)
  show "Size (state b) = arrNumI (state b) * arrNumJ (state b) * arrNumK (state b)"
    using h by (simp add: hasDims_def)
  show "\<forall>c \<in> set (physicalCells b). inRangeC (state b) (withGhosts b c)"
    using h g by (auto simp: hasDims_def physicalCells_set inRangeC_def inRange_def withGhosts_def)
qed

lemma withGhosts_inj: "inj_on (withGhosts b) A"
  by (auto simp: inj_on_def withGhosts_def)

lemma UpdateBlockCell_euler:
  assumes "TimeIntegration inputVars = ''explicitEuler''"
  shows "\<exists>n'. UpdateBlockCell inputVars impFlag consOf primOf updateWith du p (b\<lparr>state := st\<rparr>, n) =
           (b\<lparr>state := set3c st (withGhosts b p)
                           (eulerValue consOf primOf b p (at3c st (withGhosts b p)))\<rparr>, n')"
  by (cases p)
     (simp add: UpdateBlockCell_def ExplicitEulerTimeAdvance_def assms Let_def eulerValue_def
        withGhosts_def at3c_def set3c_def)

lemma UpdateBlock_euler_sweep:
  assumes "TimeIntegration inputVars = ''explicitEuler''"
  shows "\<exists>n'. fold (UpdateBlockCell inputVars impFlag consOf primOf updateWith du) cs (b, n) =
           (b\<lparr>state := sweep (withGhosts b) (eulerValue consOf primOf b) cs (state b)\<rparr>, n')"
proof -
  let ?f = "UpdateBlockCell inputVars impFlag consOf primOf updateWith du"
  let ?I = "\<lambda>s::procBlock \<times> genArray \<times> resid. \<exists>st n'. s = (b\<lparr>state := st\<rparr>, n')"
  have "?I (fold ?f cs (b, n)) \<and>
        state (fst (fold ?f cs (b, n))) =
          sweep (withGhosts b) (eulerValue consOf primOf b) cs (state (fst (b, n)))"
  proof (rule fold_is_sweep[where I = ?I and get = "\<lambda>s. state (fst s)"])
    show "?I (b, n)" by (rule exI[of _ "state b"], rule exI[of _ n]) simp
  next
    fix c s assume "?I s"
    then obtain st n' where s: "s = (b\<lparr>state := st\<rparr>, n')" by blast
    obtain n'' where "?f c (b\<lparr>state := st\<rparr>, n') =
           (b\<lparr>state := set3c st (withGhosts b c)
                           (eulerValue consOf primOf b c (at3c st (withGhosts b c)))\<rparr>, n'')"
      using UpdateBlockCell_euler[OF assms] by blast
    then show "?I (?f c s) \<and> state (fst (?f c s)) =
        set3c (state (fst s)) (withGhosts b c)
          (eulerValue consOf primOf b c (at3c (state (fst s)) (withGhosts b c)))"
      unfolding s by auto
  qed
  then obtain st n' where 1: "fold ?f cs (b, n) = (b\<lparr>state := st\<rparr>, n')"
    and 2: "state (fst (fold ?f cs (b, n))) =
          sweep (withGhosts b) (eulerValue consOf primOf b) cs (state b)"
    by auto
  have "st = sweep (withGhosts b) (eulerValue consOf primOf b) cs (state b)"
    using 1 2 by simp
  then show ?thesis using 1 by blast
qed

text \<open>
  Claim C3. On a well-formed block with the scheme \<open>explicitEuler\<close>, \<open>UpdateBlock\<close>
  returns, only the state differs from the block passed in, and at every interior cell of
  non-zero volume the new state is the primitive form of \<open>ConsVars(U) - (dt / V) * R\<close>,
  with the old state \<open>U\<close>, the time step \<open>dt\<close>, the volume \<open>V\<close> and the residual
  \<open>R\<close> of that cell; when the conversion to primitive variables is undone by the one to
  conserved variables, the new conserved state is \<open>ConsVars(U) - (dt / V) * R\<close>.
\<close>

theorem UpdateBlock_explicitEuler:
  assumes "wfBlock b" and "TimeIntegration inputVars = ''explicitEuler''"
  shows "\<exists>b' l2' linf'.
     UpdateBlock inputVars impFlag aRef consOf primOf updateWith roeFlux specRad du b l2 linfR
       = Inr (b', l2', linf') \<and>
     b' = b\<lparr>state := state b'\<rparr> \<and>
     (\<forall>p \<in> set (physicalCells b).
        at3c (vol b) (withGhosts b p) \<noteq> 0 \<longrightarrow>
        at3c (state b') (withGhosts b p) =
          primOf (genArray_minus (consOf (at3c (state b) (withGhosts b p)))
                    (genArray_scale (at3c (dt b) p / at3c (vol b) (withGhosts b p))
                                    (at3c (residual b) p))) \<and>
        ((\<forall>u. consOf (primOf u) = u) \<longrightarrow>
         consOf (at3c (state b') (withGhosts b p)) =
           genArray_minus (consOf (at3c (state b) (withGhosts b p)))
             (genArray_scale (at3c (dt b) p / at3c (vol b) (withGhosts b p))
                             (at3c (residual b) p))))"
proof -
  let ?st = "sweep (withGhosts b) (eulerValue consOf primOf b) (physicalCells b) (state b)"
  obtain n' where
    f: "fold (UpdateBlockCell inputVars impFlag consOf primOf updateWith du) (physicalCells b)
          (b, l2, linfR) = (b\<lparr>state := ?st\<rparr>, n')"
    using UpdateBlock_euler_sweep[OF assms(2)] by blast
  obtain l2' linf' where n': "n' = (l2', linf')" by (cases n')
  have r: "UpdateBlock inputVars impFlag aRef consOf primOf updateWith roeFlux specRad du b l2 linfR
       = Inr (b\<lparr>state := ?st\<rparr>, l2', linf')"
    using assms(2) f n' by (simp add: UpdateBlock_def)
  have v: "at3c ?st (withGhosts b p) =
             eulerValue consOf primOf b p (at3c (state b) (withGhosts b p))"
    if "p \<in> set (physicalCells b)" for p
    by (rule sweep_at_in[OF wfBlock_state[OF assms(1)] withGhosts_inj physicalCells_distinct that])
  show ?thesis
    apply (rule exI[of _ "b\<lparr>state := ?st\<rparr>"], rule exI[of _ l2'], rule exI[of _ linf'])
    using r v by (simp add: eulerValue_def)
qed

lemma eulerBlock_wf: "wfBlock eulerBlock"
  by (simp add: eulerBlock_def exampleBlock_def allocBlock_def wfBlock_def Let_def
        NumI_def NumJ_def NumK_def mkArray_hasDims)

lemma eulerBlock_cells: "physicalCells eulerBlock = [(0, 0, 0)]"
  by (simp add: physicalCells_def eulerBlock_def NumI_def NumJ_def NumK_def)

theorem UpdateBlock_explicitEuler_witness:
  "\<exists>b' l2' linf'.
     UpdateBlock \<lparr>Dt = 0, CFL = 1, LRef = 1, TimeIntegration = ''explicitEuler''\<rparr> 0 1
       (\<lambda>u. u) (\<lambda>u. u) (\<lambda>u d. u) (\<lambda>d b g. []) (\<lambda>l u s. 1) (mkArray 1 1 1 []) eulerBlock
       [0, 0, 0, 0, 0, 0, 0] \<lparr>linf = 0, blk = 0, iLoc = 0, jLoc = 0, kLoc = 0, eqn = 0\<rparr>
       = Inr (b', l2', linf') \<and>
     at3c (state b') (2, 2, 2) = [2, 1, 1, 1, 1, 1, 1]"
proof -
  let ?inp = "\<lparr>Dt = 0, CFL = 1, LRef = 1, TimeIntegration = ''explicitEuler''\<rparr>"
  have ti: "TimeIntegration ?inp = ''explicitEuler''" by simp
  have g: "withGhosts eulerBlock (0, 0, 0) = (2, 2, 2)"
    by (simp add: withGhosts_def eulerBlock_def exampleBlock_def allocBlock_def)
  have v: "at3c (vol eulerBlock) (2, 2, 2) = 2"
    "at3c (state eulerBlock) (2, 2, 2) = [5, 1, 1, 1, 1, 1, 1]"
    "at3c (dt eulerBlock) (0, 0, 0) = 3"
    "at3c (residual eulerBlock) (0, 0, 0) = [2, 0, 0, 0, 0, 0, 0]"
    by (simp_all add: eulerBlock_def exampleBlock_def at3c_mkArray)
  from UpdateBlock_explicitEuler[OF eulerBlock_wf ti, of 0 1 "\<lambda>u. u" "\<lambda>u. u" "\<lambda>u d. u"
         "\<lambda>d b g. []" "\<lambda>l u s. 1" "mkArray 1 1 1 []" "[0, 0, 0, 0, 0, 0, 0]"
         "\<lparr>linf = 0, blk = 0, iLoc = 0, jLoc = 0, kLoc = 0, eqn = 0\<rparr>"]
  show ?thesis
    by (auto simp: eulerBlock_cells g v genArray_minus_def genArray_scale_def)
qed

lemma rk4Block_cells: "physicalCells (rk4Block u a d) = [(0, 0, 0)]"
  by (simp add: physicalCells_def rk4Block_def NumI_def NumJ_def NumK_def)

lemma rk4Block_faces:
  "physicalFaces DirI (rk4Block u a d) = [(0, 0, 0), (1, 0, 0)]"
  "physicalFaces DirJ (rk4Block u a d) = [(0, 0, 0), (0, 1, 0)]"
  "physicalFaces DirK (rk4Block u a d) = [(0, 0, 0), (0, 0, 1)]"
  by (simp_all add: physicalFaces_def rk4Block_def exampleBlock_def allocBlock_def upto.simps)

lemma set3_unit: "set3 (mkArray 1 1 1 v) 0 0 0 w = mkArray 1 1 1 w"
  by (simp add: set3_def mkArray_def GetLoc1D_def)

lemma at3_unit: "at3 (mkArray 1 1 1 v) 0 0 0 = v"
  by (simp add: at3_def mkArray_def GetLoc1D_def)

lemma set3_set3_same: "set3 (set3 a i j k v) i j k w = set3 a i j k w"
  by (simp add: set3_def GetLoc1D_def)

lemma at3_state_rk4: "at3 (set3 (mkArray 5 5 5 z) 2 2 2 v) 2 2 2 = v"
  by (simp add: at3_def set3_def mkArray_def GetLoc1D_def)

lemma at3_vol_rk4: "at3 (mkArray 5 5 5 (v::real)) 2 2 2 = v"
  by (simp add: at3_def mkArray_def GetLoc1D_def)

lemma RK4StageCell_rk4Block:
  assumes "rr < 3"
  shows "RK4StageCell (\<lambda>u. u) (\<lambda>u. u) (state (rk4Block 5 3 2)) rr (0, 0, 0) (rk4Block u a d, n)
           = (rk4Block (5 - d / 2 * (alpha ! rr)) a d, n)"
  using assms
  by (simp add: RK4StageCell_def RK4TimeAdvance_def Let_def rk4Block_def exampleBlock_def
        allocBlock_def at3_unit at3_state_rk4 at3_vol_rk4 set3_set3_same
        genArray_minus_def genArray_scale_def)

lemma rk4Block_fields [simp]:
  "numGhosts (rk4Block u a d) = 2"
  "residual (rk4Block u a d) = mkArray 1 1 1 [1, 0, 0, 0, 0, 0, 0]"
  "avgWaveSpeed (rk4Block u a d) = mkArray 1 1 1 a"
  "dt (rk4Block u a d) = mkArray 1 1 1 d"
  "vol (rk4Block u a d) = mkArray 5 5 5 2"
  "arrNumI (fAreaI (rk4Block u a d)) = 6"
  "arrNumJ (fAreaJ (rk4Block u a d)) = 6"
  "arrNumK (fAreaK (rk4Block u a d)) = 6"
  by (simp_all add: rk4Block_def exampleBlock_def allocBlock_def)

lemma rk4Block_residual_upd:
  "(rk4Block u a d)\<lparr>residual := mkArray 1 1 1 [1, 0, 0, 0, 0, 0, 0]\<rparr> = rk4Block u a d"
  by (simp add: rk4Block_def)

lemma rk4Block_aws_upd:
  "(rk4Block u a d)\<lparr>avgWaveSpeed := mkArray 1 1 1 a'\<rparr> = rk4Block u a' d"
  by (simp add: rk4Block_def)

lemma rk4Block_dt_upd:
  "(rk4Block u a d)\<lparr>dt := mkArray 1 1 1 d'\<rparr> = rk4Block u a d'"
  by (simp add: rk4Block_def)

lemma AddToResidual_zero:
  "AddToResidual (rk4Block u a d) (genArray_scale m (genArray_scale n [0, 0, 0, 0, 0, 0, 0])) (0, 0, 0)
     = rk4Block u a d"
  "AddToResidual (rk4Block u a d) (genArray_scale m [0, 0, 0, 0, 0, 0, 0]) (0, 0, 0)
     = rk4Block u a d"
  by (simp_all add: AddToResidual_def set3c_def at3c_def at3_unit set3_unit genArray_plus_def
        genArray_scale_def rk4Block_residual_upd)

lemma CalcInvFlux_rk4Block:
  "CalcInvFlux dir zeroFlux unitSpecRad (rk4Block u a d) = rk4Block u (a + 1) d"
  by (cases dir)
     (simp_all add: CalcInvFlux_def rk4Block_faces CalcInvFluxFace_def Let_def withGhosts_def
        zeroFlux_def unitSpecRad_def AddToResidual_zero set3c_def at3c_def at3_unit set3_unit
        rk4Block_aws_upd)

lemma CalcBlockTimeStep_rk4Block:
  "CalcBlockTimeStep rk4Input aRef (rk4Block u a d) = Inr (rk4Block u a (3 * (2 / a)))"
  by (simp add: CalcBlockTimeStep_def rk4Block_cells CalcBlockTimeStepCell_def rk4Input_def
        CalcCellDt_def at3_unit set3_unit at3_vol_rk4 rk4Block_dt_upd)

lemma RK4Stage_rk4Block:
  assumes "rr < 3"
  shows "RK4Stage rk4Input aRef (\<lambda>u. u) (\<lambda>u. u) zeroFlux unitSpecRad (state (rk4Block 5 3 2)) rr
           (rk4Block u a d, n)
         = Inr (rk4Block (5 - d / 2 * (alpha ! rr)) (a + 3) (3 * (2 / (a + 3))), n)"
  using assms
  by (simp add: RK4Stage_def rk4Block_cells RK4StageCell_rk4Block CalcInvFlux_rk4Block
        CalcBlockTimeStep_rk4Block add.assoc)

lemma accumulateNorms_rk4Block:
  "accumulateNorms (rk4Block u a d) 0 0 0
     ([0, 0, 0, 0, 0, 0, 0], \<lparr>linf = 0, blk = 0, iLoc = 0, jLoc = 0, kLoc = 0, eqn = 0\<rparr>)
   = ([1, 0, 0, 0, 0, 0, 0], \<lparr>linf = 1, blk = 0, iLoc = 0, jLoc = 0, kLoc = 0, eqn = 1\<rparr>)"
proof -
  have l: "[0..<7] = [0, 1, 2, 3, 4, 5, 6::nat]" by code_simp
  have p: "parBlock (rk4Block u a d) = 0"
    by (simp add: rk4Block_def exampleBlock_def allocBlock_def)
  show ?thesis
    by (simp add: accumulateNorms_def at3_unit genArray_plus_def genArray_times_def NUMVARS_def
        UpdateMax_def l p)
qed

lemma RK4Stage_rk4Block_last:
  "RK4Stage rk4Input aRef (\<lambda>u. u) (\<lambda>u. u) zeroFlux unitSpecRad (state (rk4Block 5 3 2)) 3
           (rk4Block u a d,
            [0, 0, 0, 0, 0, 0, 0], \<lparr>linf = 0, blk = 0, iLoc = 0, jLoc = 0, kLoc = 0, eqn = 0\<rparr>)
         = Inr (rk4Block (5 - d / 2) a d,
                [1, 0, 0, 0, 0, 0, 0], \<lparr>linf = 1, blk = 0, iLoc = 0, jLoc = 0, kLoc = 0, eqn = 1\<rparr>)"
proof -
  have c: "RK4StageCell (\<lambda>u. u) (\<lambda>u. u) (state (rk4Block 5 3 2)) 3 (0, 0, 0) (rk4Block u a d, n)
           = (rk4Block (5 - d / 2) a d, accumulateNorms (rk4Block (5 - d / 2) a d) 0 0 0 n)" for n
    by (simp add: RK4StageCell_def RK4TimeAdvance_def Let_def rk4Block_def exampleBlock_def
        allocBlock_def at3_unit at3_state_rk4 at3_vol_rk4 set3_set3_same alpha_def
        genArray_minus_def genArray_scale_def)
  show ?thesis
    by (simp add: RK4Stage_def rk4Block_cells c accumulateNorms_rk4Block)
qed

text \<open>
  Claim C1, run on a block of one cell with CFL 3, volume 2, wave speed 3, hence saved time
  step 2, state 5 and residual 1 in the first component. The four stages use the time
  steps 2, 1, 2/3 and 1/2: after each of the first three the inviscid flux functions add to
  the wave speed and \<open>CalcBlockTimeStep\<close> writes a new time step, which the next stage
  reads. The returned state is \<open>5 - (1 * (1/2) / 2) * 1 = 19/4\<close>; with the saved time
  step the last stage would give \<open>5 - (1 * 2 / 2) * 1 = 4\<close>. The norms are accumulated
  once, on the last stage.
\<close>

theorem UpdateBlock_rk4_uses_recomputed_dt:
  "UpdateBlock rk4Input 0 1 (\<lambda>u. u) (\<lambda>u. u) (\<lambda>u d. u) zeroFlux unitSpecRad (mkArray 1 1 1 [])
     (rk4Block 5 3 2) [0, 0, 0, 0, 0, 0, 0]
     \<lparr>linf = 0, blk = 0, iLoc = 0, jLoc = 0, kLoc = 0, eqn = 0\<rparr>
     = Inr (rk4Block (19 / 4) 12 (1 / 2), [1, 0, 0, 0, 0, 0, 0],
            \<lparr>linf = 1, blk = 0, iLoc = 0, jLoc = 0, kLoc = 0, eqn = 1\<rparr>) \<and>
   at3c (state (rk4Block (19 / 4) 12 (1 / 2))) (2, 2, 2) = [19 / 4, 0, 0, 0, 0, 0, 0] \<and>
   at3c (state (rk4Block 5 3 2)) (2, 2, 2) = [5, 0, 0, 0, 0, 0, 0] \<and>
   at3c (dt (rk4Block 5 3 2)) (0, 0, 0) = 2 \<and>
   at3c (vol (rk4Block 5 3 2)) (2, 2, 2) = 2 \<and>
   at3c (residual (rk4Block 5 3 2)) (0, 0, 0) = [1, 0, 0, 0, 0, 0, 0] \<and>
   genArray_minus [5, 0, 0, 0, 0, 0, 0] (genArray_scale (1 * 2 / 2) [1, 0, 0, 0, 0, 0, 0])
     = [4, 0, 0, 0, 0, 0, 0]"
proof -
  have l: "[0..<4] = [0, 1, 2, 3::nat]" by code_simp
  have ti: "TimeIntegration rk4Input = ''rk4''" by (simp add: rk4Input_def)
  have s0: "RK4Stage rk4Input 1 (\<lambda>u. u) (\<lambda>u. u) zeroFlux unitSpecRad (state (rk4Block 5 3 2)) 0
           (rk4Block 5 3 2, n) = Inr (rk4Block (19 / 4) 6 1, n)" for n
    using RK4Stage_rk4Block[of 0 1 5 3 2 n] by (simp add: alpha_def)
  have s1: "RK4Stage rk4Input 1 (\<lambda>u. u) (\<lambda>u. u) zeroFlux unitSpecRad (state (rk4Block 5 3 2)) (Suc 0)
           (rk4Block (19 / 4) 6 1, n) = Inr (rk4Block (29 / 6) 9 (2 / 3), n)" for n
    using RK4Stage_rk4Block[of "Suc 0" 1 "19 / 4" 6 1 n] by (simp add: alpha_def)
  have s2: "RK4Stage rk4Input 1 (\<lambda>u. u) (\<lambda>u. u) zeroFlux unitSpecRad (state (rk4Block 5 3 2)) 2
           (rk4Block (29 / 6) 9 (2 / 3), n) = Inr (rk4Block (29 / 6) 12 (1 / 2), n)" for n
    using RK4Stage_rk4Block[of 2 1 "29 / 6" 9 "2 / 3" n] by (simp add: alpha_def)
  have s3: "RK4Stage rk4Input 1 (\<lambda>u. u) (\<lambda>u. u) zeroFlux unitSpecRad (state (rk4Block 5 3 2)) 3
           (rk4Block (29 / 6) 12 (1 / 2),
            [0, 0, 0, 0, 0, 0, 0], \<lparr>linf = 0, blk = 0, iLoc = 0, jLoc = 0, kLoc = 0, eqn = 0\<rparr>)
         = Inr (rk4Block (19 / 4) 12 (1 / 2),
                [1, 0, 0, 0, 0, 0, 0], \<lparr>linf = 1, blk = 0, iLoc = 0, jLoc = 0, kLoc = 0, eqn = 1\<rparr>)"
    using RK4Stage_rk4Block_last[of 1 "29 / 6" 12 "1 / 2"] by simp
  have 1: "UpdateBlock rk4Input 0 1 (\<lambda>u. u) (\<lambda>u. u) (\<lambda>u d. u) zeroFlux unitSpecRad (mkArray 1 1 1 [])
     (rk4Block 5 3 2) [0, 0, 0, 0, 0, 0, 0]
     \<lparr>linf = 0, blk = 0, iLoc = 0, jLoc = 0, kLoc = 0, eqn = 0\<rparr>
     = Inr (rk4Block (19 / 4) 12 (1 / 2), [1, 0, 0, 0, 0, 0, 0],
            \<lparr>linf = 1, blk = 0, iLoc = 0, jLoc = 0, kLoc = 0, eqn = 1\<rparr>)"
    by (simp add: UpdateBlock_def ti l Let_def s0 s1 s2 s3)
  have 2: "at3c (state (rk4Block u a d)) (2, 2, 2) = [u, 0, 0, 0, 0, 0, 0]" for u a d
    by (simp add: at3c_def rk4Block_def at3_state_rk4)
  have 3: "at3c (dt (rk4Block 5 3 2)) (0, 0, 0) = 2" "at3c (vol (rk4Block 5 3 2)) (2, 2, 2) = 2"
    "at3c (residual (rk4Block 5 3 2)) (0, 0, 0) = [1, 0, 0, 0, 0, 0, 0]"
    by (simp_all add: at3c_def at3_unit at3_vol_rk4)
  have 4: "genArray_minus [5, 0, 0, 0, 0, 0, 0] (genArray_scale (1 * 2 / 2) [1, 0, 0, 0, 0, 0, 0])
     = [4, 0, 0, 0, 0, 0, 0]"
    by (simp add: genArray_minus_def genArray_scale_def)
  show ?thesis using 1 2 3 4 by simp
qed

section \<open>Properties of the solution gather\<close>

lemma unpack_concat:
  assumes "\<forall>x \<in> set xs. length x = n" "length pre = p"
  shows "map (\<lambda>i. take n (drop (p + i * n) (pre @ concat xs @ post))) [0..<length xs] = xs"
  using assms
proof (induction xs arbitrary: pre p)
  case Nil
  then show ?case by simp
next
  case (Cons x xs)
  have x: "length x = n" using Cons.prems(1) by simp
  have h: "take n (drop p (pre @ concat (x # xs) @ post)) = x"
    using x Cons.prems(2) by simp
  have "map (\<lambda>i. take n (drop ((p + n) + i * n) ((pre @ x) @ concat xs @ post))) [0..<length xs] = xs"
    using Cons.prems x by (intro Cons.IH) auto
  moreover have "pre @ concat (x # xs) @ post = (pre @ x) @ concat xs @ post" by simp
  moreover have "p + Suc i * n = (p + n) + i * n" for i by simp
  ultimately have t: "map (\<lambda>i. take n (drop (p + Suc i * n) (pre @ concat (x # xs) @ post))) [0..<length xs] = xs"
    by (simp only:)
  have "[0..<length (x # xs)] = 0 # map Suc [0..<length xs]"
    by (simp add: upt_conv_Cons map_Suc_upt del: upt_Suc)
  then show ?case using h t by (simp add: comp_def del: upt_Suc)
qed

lemma MPI_Unpack_cellData_packed:
  assumes "cellsOk xs" "length pre = p"
  shows "MPI_Unpack_cellData (pre @ concat xs @ post) p (int (length xs))
           = Inr (xs, p + length (concat xs))"
proof -
  have l: "length (concat xs) = length xs * NUMVARS"
    using assms(1) unfolding cellsOk_def by (induction xs) auto
  show ?thesis
    using unpack_concat[of xs NUMVARS pre p post] assms
    by (simp add: MPI_Unpack_cellData_def l cellsOk_def)
qed

lemma MPI_Unpack_double_packed:
  assumes "length pre = p"
  shows "MPI_Unpack_double (pre @ xs @ post) p (int (length xs)) = Inr (xs, p + length xs)"
  using assms by (simp add: MPI_Unpack_double_def)

lemma MPI_Pack_all [simp]:
  "MPI_Pack_cellData xs (Size a) buf = buf @ concat (take (length (arrData a)) xs)"
  "MPI_Pack_double ys (Size a) buf = buf @ take (length (arrData a)) ys"
  "MPI_Pack_cellData xs (int (length xs)) buf = buf @ concat xs"
  "MPI_Pack_double ys (int (length ys)) buf = buf @ ys"
  by (simp_all add: MPI_Pack_cellData_def MPI_Pack_double_def Size_def)

lemma PackSendSolMPI_payload:
  "PackSendSolMPI b =
     \<lparr>msgSource = rank b, msgDest = ROOTP, msgTag = globalPos b,
      payload = concat (arrData (state b)) @ concat (arrData (residual b)) @ arrData (dt b) @
                arrData (wallDist b) @ arrData (avgWaveSpeed b)\<rparr>"
  by (simp add: PackSendSolMPI_def Let_def)

lemma GetProcBlocksSend_payload:
  "GetProcBlocksSend localBlocks =
     map (\<lambda>b. \<lparr>msgSource = rank b, msgDest = ROOTP, msgTag = globalPos b,
                payload = concat (arrData (state b)) @ concat (arrData (residual b)) @
                          arrData (dt b) @ arrData (avgWaveSpeed b)\<rparr>) localBlocks"
  by (simp add: GetProcBlocksSend_def Let_def)

lemma MPI_Recv_first:
  assumes "\<forall>m' \<in> set pre. \<not> (msgSource m' = src \<and> msgTag m' = t \<and> msgDest m' = ROOTP)"
    and "msgSource m = src" "msgTag m = t" "msgDest m = ROOTP"
  shows "MPI_Recv src t (pre @ m # rest) = Inr (m, pre @ rest)"
  using assms by (induction pre) auto

lemma MPI_Recv_none:
  assumes "\<forall>m' \<in> set ms. \<not> (msgSource m' = src \<and> msgTag m' = t \<and> msgDest m' = ROOTP)"
  shows "MPI_Recv src t ms = Inl Blocked"
  using assms by (induction ms) auto

lemma MPI_Recv_unique:
  assumes "m \<in> set ms" "msgSource m = src" "msgTag m = t" "msgDest m = ROOTP"
    and "\<forall>m' \<in> set ms. msgSource m' = src \<and> msgTag m' = t \<and> msgDest m' = ROOTP \<longrightarrow> m' = m"
  shows "MPI_Recv src t ms = Inr (m, remove1 m ms)"
  using assms(1,5)
proof (induction ms)
  case Nil
  then show ?case by simp
next
  case (Cons a ms)
  show ?case
  proof (cases "msgSource a = src \<and> msgTag a = t \<and> msgDest a = ROOTP")
    case True
    then have "a = m" using Cons.prems(2) by simp
    then show ?thesis using assms(2-4) by simp
  next
    case False
    then have ne: "a \<noteq> m" using assms(2-4) by auto
    then have "m \<in> set ms" using Cons.prems(1) by simp
    moreover have "\<forall>m' \<in> set ms. msgSource m' = src \<and> msgTag m' = t \<and> msgDest m' = ROOTP \<longrightarrow> m' = m"
      using Cons.prems(2) by simp
    ultimately have "MPI_Recv src t ms = Inr (m, remove1 m ms)" by (rule Cons.IH)
    then show ?thesis using False ne by simp
  qed
qed

lemma GetProcBlocksSend_gatherMessage: "GetProcBlocksSend bs = map gatherMessage bs"
  by (simp add: GetProcBlocksSend_payload gatherMessage_def)

lemma unpack5:
  assumes c: "cellsOk (arrData (state s))" "cellsOk (arrData (residual s))"
    and z: "fits5 r s"
    and m: "MPI_Recv (rank r) (globalPos r) ms = Inr (PackSendSolMPI s, rest)"
  shows "RecvUnpackSolMPI r ms = Inr (unpacked5 r s, rest)"
proof -
  let ?st = "arrData (state s)" and ?re = "arrData (residual s)" and ?dt = "arrData (dt s)"
  let ?wd = "arrData (wallDist s)" and ?ws = "arrData (avgWaveSpeed s)"
  let ?buf = "concat ?st @ concat ?re @ ?dt @ ?wd @ ?ws"
  have z': "Size (state r) = int (length ?st)" "Size (residual r) = int (length ?re)"
    "Size (dt r) = int (length ?dt)" "Size (wallDist r) = int (length ?wd)"
    "Size (avgWaveSpeed r) = int (length ?ws)"
    using z by (simp_all add: Size_def fits5_def)
  have 1: "MPI_Unpack_cellData ?buf 0 (int (length ?st)) = Inr (?st, length (concat ?st))"
    using MPI_Unpack_cellData_packed[OF c(1), of "[]" 0 "concat ?re @ ?dt @ ?wd @ ?ws"] by simp
  have 2: "MPI_Unpack_cellData ?buf (length (concat ?st)) (int (length ?re))
             = Inr (?re, length (concat ?st) + length (concat ?re))"
    using MPI_Unpack_cellData_packed[OF c(2), of "concat ?st" "length (concat ?st)" "?dt @ ?wd @ ?ws"]
    by simp
  have 3: "MPI_Unpack_double ?buf (length (concat ?st) + length (concat ?re)) (int (length ?dt))
             = Inr (?dt, length (concat ?st) + length (concat ?re) + length ?dt)"
    using MPI_Unpack_double_packed[of "concat ?st @ concat ?re"
            "length (concat ?st) + length (concat ?re)" ?dt "?wd @ ?ws"]
    by simp
  have 4: "MPI_Unpack_double ?buf (length (concat ?st) + length (concat ?re) + length ?dt)
             (int (length ?wd))
             = Inr (?wd, length (concat ?st) + length (concat ?re) + length ?dt + length ?wd)"
    using MPI_Unpack_double_packed[of "concat ?st @ concat ?re @ ?dt"
            "length (concat ?st) + length (concat ?re) + length ?dt" ?wd ?ws]
    by simp
  have 5: "MPI_Unpack_double ?buf
             (length (concat ?st) + length (concat ?re) + length ?dt + length ?wd)
             (int (length ?ws))
             = Inr (?ws, length (concat ?st) + length (concat ?re) + length ?dt + length ?wd
                         + length ?ws)"
    using MPI_Unpack_double_packed[of "concat ?st @ concat ?re @ ?dt @ ?wd"
            "length (concat ?st) + length (concat ?re) + length ?dt + length ?wd" ?ws "[]"]
    by simp
  show ?thesis
    unfolding RecvUnpackSolMPI_def m unpacked5_def
    by (simp add: PackSendSolMPI_payload z' 1 2 3 4 5)
qed

lemma unpack4:
  assumes z: "fits4 r s"
    and m: "MPI_Recv (rank r) (globalPos r) ms = Inr (gatherMessage s, rest)"
  shows "GetProcBlocksRecvBlock r ms = Inr (unpacked4 r s, rest)"
proof -
  let ?st = "arrData (state s)" and ?re = "arrData (residual s)" and ?dt = "arrData (dt s)"
  let ?ws = "arrData (avgWaveSpeed s)"
  let ?buf = "concat ?st @ concat ?re @ ?dt @ ?ws"
  have c: "cellsOk ?st" "cellsOk ?re" using z by (simp_all add: fits4_def)
  have z': "(NumI r + 2 * numGhosts r) * (NumJ r + 2 * numGhosts r) *
                              (NumK r + 2 * numGhosts r) = int (length ?st)"
    "NumI r * NumJ r * NumK r = int (length ?re)"
    "int (length ?dt) = int (length ?re)" "int (length ?ws) = int (length ?re)"
    using z by (simp_all add: Size_def fits4_def)
  have 1: "MPI_Unpack_cellData ?buf 0 (int (length ?st)) = Inr (?st, length (concat ?st))"
    using MPI_Unpack_cellData_packed[OF c(1), of "[]" 0 "concat ?re @ ?dt @ ?ws"] by simp
  have 2: "MPI_Unpack_cellData ?buf (length (concat ?st)) (int (length ?re))
             = Inr (?re, length (concat ?st) + length (concat ?re))"
    using MPI_Unpack_cellData_packed[OF c(2), of "concat ?st" "length (concat ?st)" "?dt @ ?ws"]
    by simp
  have 3: "MPI_Unpack_double ?buf (length (concat ?st) + length (concat ?re)) (int (length ?re))
             = Inr (?dt, length (concat ?st) + length (concat ?re) + length ?dt)"
    using MPI_Unpack_double_packed[of "concat ?st @ concat ?re"
            "length (concat ?st) + length (concat ?re)" ?dt "?ws"] z'(3)
    by simp
  have 4: "MPI_Unpack_double ?buf (length (concat ?st) + length (concat ?re) + length ?dt)
             (int (length ?re))
             = Inr (?ws, length (concat ?st) + length (concat ?re) + length ?dt + length ?ws)"
    using MPI_Unpack_double_packed[of "concat ?st @ concat ?re @ ?dt"
            "length (concat ?st) + length (concat ?re) + length ?dt" ?ws "[]"] z'(4)
    by simp
  show ?thesis
    unfolding GetProcBlocksRecvBlock_def m unpacked4_def
    by (simp add: gatherMessage_def z'(1,2) 1 2 3 4 Let_def)
qed

lemma blocked5:
  assumes "\<forall>m \<in> set ms. \<not> matchesBlock r m"
  shows "RecvUnpackSolMPI r ms = Inl Blocked"
  using MPI_Recv_none[of ms "rank r" "globalPos r"] assms
  by (simp add: RecvUnpackSolMPI_def matchesBlock_def)

lemma blocked4:
  assumes "\<forall>m \<in> set ms. \<not> matchesBlock r m"
  shows "GetProcBlocksRecvBlock r ms = Inl Blocked"
  using MPI_Recv_none[of ms "rank r" "globalPos r"] assms
  by (simp add: GetProcBlocksRecvBlock_def matchesBlock_def)

lemma distinct_map_remove1:
  "distinct (map f xs) \<Longrightarrow> distinct (map f (remove1 x xs))"
proof (induction xs)
  case Nil
  then show ?case by simp
next
  case (Cons a xs)
  have "set (remove1 x xs) \<subseteq> set xs" by (rule set_remove1_subset)
  then show ?case using Cons by auto
qed

lemma GetProcBlocksRoot_gather_aux:
  assumes "distinct (map (\<lambda>m. (msgSource m, msgTag m)) inFlight)"
    and "\<forall>m \<in> set inFlight. msgDest m = ROOTP"
    and "distinct (map blockKey (filter (\<lambda>b. rank b \<noteq> ROOTP) blocks))"
    and "\<forall>b \<in> set blocks. rank b \<noteq> ROOTP \<longrightarrow>
           (\<exists>s \<in> S. blockKey s = blockKey b \<and> fits4 b s \<and> gatherMessage s \<in> set inFlight)"
    and "locNum + length (filter (\<lambda>b. rank b = ROOTP) blocks) \<le> length localBlocks"
  shows "\<exists>result. GetProcBlocksRoot blocks localBlocks locNum inFlight = Inr result \<and>
           length result = length blocks \<and>
           (\<forall>n < length blocks.
              (rank (blocks ! n) = ROOTP \<longrightarrow>
                 result ! n = localBlocks ! (locNum + length (filter (\<lambda>b. rank b = ROOTP) (take n blocks)))) \<and>
              (rank (blocks ! n) \<noteq> ROOTP \<longrightarrow>
                 (\<exists>s \<in> S. blockKey s = blockKey (blocks ! n) \<and> result ! n = unpacked4 (blocks ! n) s)))"
  using assms
proof (induction blocks arbitrary: locNum inFlight)
  case Nil
  then show ?case by simp
next
  case (Cons b blocks)
  show ?case
  proof (cases "rank b = ROOTP")
    case True
    have l: "locNum < length localBlocks" using Cons.prems(5) True by simp
    have "\<exists>result. GetProcBlocksRoot blocks localBlocks (locNum + 1) inFlight = Inr result \<and>
           length result = length blocks \<and>
           (\<forall>n < length blocks.
              (rank (blocks ! n) = ROOTP \<longrightarrow>
                 result ! n = localBlocks ! (locNum + 1 + length (filter (\<lambda>b. rank b = ROOTP) (take n blocks)))) \<and>
              (rank (blocks ! n) \<noteq> ROOTP \<longrightarrow>
                 (\<exists>s \<in> S. blockKey s = blockKey (blocks ! n) \<and> result ! n = unpacked4 (blocks ! n) s)))"
      using Cons.prems True by (intro Cons.IH) auto
    then obtain bs where bs: "GetProcBlocksRoot blocks localBlocks (locNum + 1) inFlight = Inr bs"
      "length bs = length blocks"
      "\<forall>n < length blocks.
              (rank (blocks ! n) = ROOTP \<longrightarrow>
                 bs ! n = localBlocks ! (locNum + 1 + length (filter (\<lambda>b. rank b = ROOTP) (take n blocks)))) \<and>
              (rank (blocks ! n) \<noteq> ROOTP \<longrightarrow>
                 (\<exists>s \<in> S. blockKey s = blockKey (blocks ! n) \<and> bs ! n = unpacked4 (blocks ! n) s))"
      by blast
    have r: "GetProcBlocksRoot (b # blocks) localBlocks locNum inFlight =
             Inr (localBlocks ! locNum # bs)"
      using True l bs(1) by simp
    have "\<forall>n < length (b # blocks).
              (rank ((b # blocks) ! n) = ROOTP \<longrightarrow>
                 (localBlocks ! locNum # bs) ! n =
                   localBlocks ! (locNum + length (filter (\<lambda>b. rank b = ROOTP) (take n (b # blocks))))) \<and>
              (rank ((b # blocks) ! n) \<noteq> ROOTP \<longrightarrow>
                 (\<exists>s \<in> S. blockKey s = blockKey ((b # blocks) ! n) \<and>
                    (localBlocks ! locNum # bs) ! n = unpacked4 ((b # blocks) ! n) s))"
    proof (intro allI impI)
      fix n assume "n < length (b # blocks)"
      then show "(rank ((b # blocks) ! n) = ROOTP \<longrightarrow>
                 (localBlocks ! locNum # bs) ! n =
                   localBlocks ! (locNum + length (filter (\<lambda>b. rank b = ROOTP) (take n (b # blocks))))) \<and>
              (rank ((b # blocks) ! n) \<noteq> ROOTP \<longrightarrow>
                 (\<exists>s \<in> S. blockKey s = blockKey ((b # blocks) ! n) \<and>
                    (localBlocks ! locNum # bs) ! n = unpacked4 ((b # blocks) ! n) s))"
        using bs(3) True by (cases n) simp_all
    qed
    then show ?thesis using r bs(2) by simp
  next
    case False
    from Cons.prems(4) False obtain s where
      s: "s \<in> S" "blockKey s = blockKey b" "fits4 b s" "gatherMessage s \<in> set inFlight"
      by auto
    have key: "msgSource (gatherMessage s) = rank b" "msgTag (gatherMessage s) = globalPos b"
      "msgDest (gatherMessage s) = ROOTP"
      using s(2) by (simp_all add: gatherMessage_def blockKey_def)
    have uq: "\<forall>m' \<in> set inFlight. msgSource m' = rank b \<and> msgTag m' = globalPos b \<and>
                msgDest m' = ROOTP \<longrightarrow> m' = gatherMessage s"
    proof (intro ballI impI)
      fix m' assume m': "m' \<in> set inFlight"
        and "msgSource m' = rank b \<and> msgTag m' = globalPos b \<and> msgDest m' = ROOTP"
      then have "(msgSource m', msgTag m') = (msgSource (gatherMessage s), msgTag (gatherMessage s))"
        using key by simp
      with Cons.prems(1) m' s(4) show "m' = gatherMessage s"
        by (metis (mono_tags, lifting) distinct_map inj_onD)
    qed
    let ?rest = "remove1 (gatherMessage s) inFlight"
    have rv: "MPI_Recv (rank b) (globalPos b) inFlight = Inr (gatherMessage s, ?rest)"
      using MPI_Recv_unique[OF s(4) key uq] .
    have rb: "GetProcBlocksRecvBlock b inFlight = Inr (unpacked4 b s, ?rest)"
      using unpack4[OF s(3) rv] .
    have nk: "blockKey b \<notin> blockKey ` set (filter (\<lambda>b. rank b \<noteq> ROOTP) blocks)"
      using Cons.prems(3) False by simp
    have p4: "\<forall>b' \<in> set blocks. rank b' \<noteq> ROOTP \<longrightarrow>
           (\<exists>s' \<in> S. blockKey s' = blockKey b' \<and> fits4 b' s' \<and> gatherMessage s' \<in> set ?rest)"
    proof (intro ballI impI)
      fix b' assume b': "b' \<in> set blocks" "rank b' \<noteq> ROOTP"
      with Cons.prems(4) obtain s' where
        s': "s' \<in> S" "blockKey s' = blockKey b'" "fits4 b' s'" "gatherMessage s' \<in> set inFlight"
        by auto
      have "blockKey b' \<in> blockKey ` set (filter (\<lambda>b. rank b \<noteq> ROOTP) blocks)"
        using b' by simp
      then have "blockKey b' \<noteq> blockKey b" using nk by metis
      then have "gatherMessage s' \<noteq> gatherMessage s"
        using s'(2) s(2) by (auto simp: gatherMessage_def blockKey_def)
      then have "gatherMessage s' \<in> set ?rest" using s'(4) by simp
      with s' show "\<exists>s' \<in> S. blockKey s' = blockKey b' \<and> fits4 b' s' \<and> gatherMessage s' \<in> set ?rest"
        by blast
    qed
    have "\<exists>result. GetProcBlocksRoot blocks localBlocks locNum ?rest = Inr result \<and>
           length result = length blocks \<and>
           (\<forall>n < length blocks.
              (rank (blocks ! n) = ROOTP \<longrightarrow>
                 result ! n = localBlocks ! (locNum + length (filter (\<lambda>b. rank b = ROOTP) (take n blocks)))) \<and>
              (rank (blocks ! n) \<noteq> ROOTP \<longrightarrow>
                 (\<exists>s \<in> S. blockKey s = blockKey (blocks ! n) \<and> result ! n = unpacked4 (blocks ! n) s)))"
    proof (rule Cons.IH)
      show "distinct (map (\<lambda>m. (msgSource m, msgTag m)) ?rest)"
        using Cons.prems(1) by (rule distinct_map_remove1)
      show "\<forall>m \<in> set ?rest. msgDest m = ROOTP"
        using Cons.prems(2) set_remove1_subset[of "gatherMessage s" inFlight] by blast
      show "distinct (map blockKey (filter (\<lambda>b. rank b \<noteq> ROOTP) blocks))"
        using Cons.prems(3) False by simp
      show "\<forall>b \<in> set blocks. rank b \<noteq> ROOTP \<longrightarrow>
           (\<exists>s' \<in> S. blockKey s' = blockKey b \<and> fits4 b s' \<and> gatherMessage s' \<in> set ?rest)"
        using p4 .
      show "locNum + length (filter (\<lambda>b. rank b = ROOTP) blocks) \<le> length localBlocks"
        using Cons.prems(5) False by simp
    qed
    then obtain bs where bs: "GetProcBlocksRoot blocks localBlocks locNum ?rest = Inr bs"
      "length bs = length blocks"
      "\<forall>n < length blocks.
              (rank (blocks ! n) = ROOTP \<longrightarrow>
                 bs ! n = localBlocks ! (locNum + length (filter (\<lambda>b. rank b = ROOTP) (take n blocks)))) \<and>
              (rank (blocks ! n) \<noteq> ROOTP \<longrightarrow>
                 (\<exists>s \<in> S. blockKey s = blockKey (blocks ! n) \<and> bs ! n = unpacked4 (blocks ! n) s))"
      by blast
    have r: "GetProcBlocksRoot (b # blocks) localBlocks locNum inFlight = Inr (unpacked4 b s # bs)"
      using False rb bs(1) by simp
    have "\<forall>n < length (b # blocks).
              (rank ((b # blocks) ! n) = ROOTP \<longrightarrow>
                 (unpacked4 b s # bs) ! n =
                   localBlocks ! (locNum + length (filter (\<lambda>b. rank b = ROOTP) (take n (b # blocks))))) \<and>
              (rank ((b # blocks) ! n) \<noteq> ROOTP \<longrightarrow>
                 (\<exists>s' \<in> S. blockKey s' = blockKey ((b # blocks) ! n) \<and>
                    (unpacked4 b s # bs) ! n = unpacked4 ((b # blocks) ! n) s'))"
    proof (intro allI impI)
      fix n assume "n < length (b # blocks)"
      then show "(rank ((b # blocks) ! n) = ROOTP \<longrightarrow>
                 (unpacked4 b s # bs) ! n =
                   localBlocks ! (locNum + length (filter (\<lambda>b. rank b = ROOTP) (take n (b # blocks))))) \<and>
              (rank ((b # blocks) ! n) \<noteq> ROOTP \<longrightarrow>
                 (\<exists>s' \<in> S. blockKey s' = blockKey ((b # blocks) ! n) \<and>
                    (unpacked4 b s # bs) ! n = unpacked4 ((b # blocks) ! n) s'))"
        using bs(3) False s(1,2) by (cases n) auto
    qed
    then show ?thesis using r bs(2) by simp
  qed
qed

lemma GetProcBlocksRoot_gather:
  assumes "distinct (map blockKey sent)"
    and "distinct (map blockKey (filter (\<lambda>b. rank b \<noteq> ROOTP) blocks))"
    and "\<forall>b \<in> set blocks. rank b \<noteq> ROOTP \<longrightarrow>
           (\<exists>s \<in> set sent. blockKey s = blockKey b \<and> fits4 b s)"
    and "length (filter (\<lambda>b. rank b = ROOTP) blocks) \<le> length localBlocks"
  shows "\<exists>result. GetProcBlocksRoot blocks localBlocks 0 (GetProcBlocksSend sent) = Inr result \<and>
           length result = length blocks \<and>
           (\<forall>n < length blocks.
              (rank (blocks ! n) = ROOTP \<longrightarrow>
                 result ! n = localBlocks ! length (filter (\<lambda>b. rank b = ROOTP) (take n blocks))) \<and>
              (rank (blocks ! n) \<noteq> ROOTP \<longrightarrow>
                 (\<exists>s \<in> set sent. blockKey s = blockKey (blocks ! n) \<and>
                    result ! n = unpacked4 (blocks ! n) s)))"
proof -
  have k: "(\<lambda>m. (msgSource m, msgTag m)) \<circ> gatherMessage = blockKey"
    by (intro ext) (simp add: gatherMessage_def blockKey_def)
  have 1: "distinct (map (\<lambda>m. (msgSource m, msgTag m)) (GetProcBlocksSend sent))"
    using assms(1) by (simp add: GetProcBlocksSend_gatherMessage k)
  have 2: "\<forall>m \<in> set (GetProcBlocksSend sent). msgDest m = ROOTP"
    by (auto simp: GetProcBlocksSend_gatherMessage gatherMessage_def)
  have 4: "\<forall>b \<in> set blocks. rank b \<noteq> ROOTP \<longrightarrow>
           (\<exists>s \<in> set sent. blockKey s = blockKey b \<and> fits4 b s \<and>
              gatherMessage s \<in> set (GetProcBlocksSend sent))"
    using assms(3) by (auto simp: GetProcBlocksSend_gatherMessage)
  have 5: "0 + length (filter (\<lambda>b. rank b = ROOTP) blocks) \<le> length localBlocks"
    using assms(4) by simp
  from GetProcBlocksRoot_gather_aux[OF 1 2 assms(2) 4 5] show ?thesis by simp
qed

lemma workerBlock_fields:
  "rank (workerBlock rk gp v) = rk" "globalPos (workerBlock rk gp v) = gp"
  "arrData (state (workerBlock rk gp v)) = replicate 27 (replicate NUMVARS v)"
  "arrData (residual (workerBlock rk gp v)) = [replicate NUMVARS (v + 1)]"
  "arrData (dt (workerBlock rk gp v)) = [v + 2]"
  "arrData (wallDist (workerBlock rk gp v)) = [v + 3]"
  "arrData (avgWaveSpeed (workerBlock rk gp v)) = [v + 4]"
  "Size (state (workerBlock rk gp v)) = 27" "Size (residual (workerBlock rk gp v)) = 1"
  "Size (dt (workerBlock rk gp v)) = 1" "Size (wallDist (workerBlock rk gp v)) = 1"
  "Size (avgWaveSpeed (workerBlock rk gp v)) = 1"
  by (simp_all add: workerBlock_def mkArray_def Size_def)

lemma coordBlock_fields:
  "rank (coordBlock rk gp) = rk" "globalPos (coordBlock rk gp) = gp"
  "NumI (coordBlock rk gp) = 1" "NumJ (coordBlock rk gp) = 1" "NumK (coordBlock rk gp) = 1"
  "numGhosts (coordBlock rk gp) = 1"
  "Size (state (coordBlock rk gp)) = 27" "Size (residual (coordBlock rk gp)) = 1"
  "Size (dt (coordBlock rk gp)) = 1" "Size (wallDist (coordBlock rk gp)) = 1"
  "Size (avgWaveSpeed (coordBlock rk gp)) = 1"
  by (simp_all add: coordBlock_def allocBlock_def mkArray_def Size_def NumI_def NumJ_def NumK_def)

lemma workerBlock_cellsOk:
  "cellsOk (arrData (state (workerBlock rk gp v)))"
  "cellsOk (arrData (residual (workerBlock rk gp v)))"
  apply (simp_all add: workerBlock_fields)
  apply (simp_all add: cellsOk_def)
  done

lemma fits4_worker: "fits4 (coordBlock rk gp) (workerBlock rk' gp' v)"
  unfolding fits4_def using workerBlock_cellsOk[of rk' gp' v]
  by (simp add: workerBlock_fields(8-12) coordBlock_fields)


text \<open>
  Claim C9, as the code has it. \<open>PackSendSolMPI\<close> packs state, residual, time step, wall
  distance and wave speed of its block, in that order, into one buffer and sends it to the
  coordinator with the block's global position as tag. \<open>RecvUnpackSolMPI\<close>, called on a
  block with the same rank, global position and array sizes, takes that message out of the
  messages in flight, wherever it stands behind messages from another rank or with another
  tag, leaves those in flight, and unpacks the same five arrays in the same order into the
  block; while no message with the block's rank and tag is in flight it unpacks nothing.
  The gather written out in \<open>GetProcBlocks\<close> packs, for each block of a worker, exactly
  state, residual, time step and wave speed, in that order, with the block's global
  position as tag, and the coordinator's receive unpacks these four into the block whose
  rank, global position and extents match, in the same way. The whole loop of the
  coordinator, run on the messages of any list of sent blocks with pairwise different
  rank and global position, returns one block for each of its blocks, in their order: a
  block of the coordinator's own rank is the next local block, and any other block holds
  the four arrays of the sent block with its rank and global position. Cell records have
  \<open>NUMVARS\<close> entries.
\<close>

theorem solution_gather_roundtrip:
  assumes "cellsOk (arrData (state s))" and "cellsOk (arrData (residual s))"
    and "rank r = rank s" and "globalPos r = globalPos s"
    and "\<forall>m \<in> set pre. \<not> matchesBlock r m"
    and "distinct (map blockKey sent)"
    and "distinct (map blockKey (filter (\<lambda>b. rank b \<noteq> ROOTP) blocks))"
    and "\<forall>b \<in> set blocks. rank b \<noteq> ROOTP \<longrightarrow>
           (\<exists>w \<in> set sent. blockKey w = blockKey b \<and> fits4 b w)"
    and "length (filter (\<lambda>b. rank b = ROOTP) blocks) \<le> length localBlocks"
  shows "PackSendSolMPI s =
           \<lparr>msgSource = rank s, msgDest = ROOTP, msgTag = globalPos s,
            payload = concat (arrData (state s)) @ concat (arrData (residual s)) @
                      arrData (dt s) @ arrData (wallDist s) @ arrData (avgWaveSpeed s)\<rparr> \<and>
    (Size (state r) = Size (state s) \<and> Size (residual r) = Size (residual s) \<and>
     Size (dt r) = Size (dt s) \<and> Size (wallDist r) = Size (wallDist s) \<and>
     Size (avgWaveSpeed r) = Size (avgWaveSpeed s) \<longrightarrow>
       RecvUnpackSolMPI r (pre @ PackSendSolMPI s # rest) =
         Inr (r\<lparr>state := (state r)\<lparr>arrData := arrData (state s)\<rparr>,
                residual := (residual r)\<lparr>arrData := arrData (residual s)\<rparr>,
                dt := (dt r)\<lparr>arrData := arrData (dt s)\<rparr>,
                wallDist := (wallDist r)\<lparr>arrData := arrData (wallDist s)\<rparr>,
                avgWaveSpeed := (avgWaveSpeed r)\<lparr>arrData := arrData (avgWaveSpeed s)\<rparr>\<rparr>,
              pre @ rest)) \<and>
    RecvUnpackSolMPI r pre = Inl Blocked \<and>
    GetProcBlocksSend workerBlocks =
      map (\<lambda>b. \<lparr>msgSource = rank b, msgDest = ROOTP, msgTag = globalPos b,
                 payload = concat (arrData (state b)) @ concat (arrData (residual b)) @
                           arrData (dt b) @ arrData (avgWaveSpeed b)\<rparr>) workerBlocks \<and>
    (Size (state s) = (NumI r + 2 * numGhosts r) * (NumJ r + 2 * numGhosts r) *
                      (NumK r + 2 * numGhosts r) \<and>
     Size (residual s) = NumI r * NumJ r * NumK r \<and>
     Size (dt s) = NumI r * NumJ r * NumK r \<and>
     Size (avgWaveSpeed s) = NumI r * NumJ r * NumK r \<longrightarrow>
       GetProcBlocksRecvBlock r (pre @ GetProcBlocksSend [s] @ rest) =
         Inr (r\<lparr>state := (state r)\<lparr>arrData := arrData (state s)\<rparr>,
                residual := (residual r)\<lparr>arrData := arrData (residual s)\<rparr>,
                dt := (dt r)\<lparr>arrData := arrData (dt s)\<rparr>,
                avgWaveSpeed := (avgWaveSpeed r)\<lparr>arrData := arrData (avgWaveSpeed s)\<rparr>\<rparr>,
              pre @ rest)) \<and>
    GetProcBlocksRecvBlock r pre = Inl Blocked \<and>
    (\<exists>result. GetProcBlocksRoot blocks localBlocks 0 (GetProcBlocksSend sent) = Inr result \<and>
       length result = length blocks \<and>
       (\<forall>n < length blocks.
          (rank (blocks ! n) = ROOTP \<longrightarrow>
             result ! n = localBlocks ! length (filter (\<lambda>b. rank b = ROOTP) (take n blocks))) \<and>
          (rank (blocks ! n) \<noteq> ROOTP \<longrightarrow>
             (\<exists>w \<in> set sent. blockKey w = blockKey (blocks ! n) \<and>
                result ! n = unpacked4 (blocks ! n) w))))"
proof -
  have pm: "\<forall>m' \<in> set pre. \<not> (msgSource m' = rank r \<and> msgTag m' = globalPos r \<and> msgDest m' = ROOTP)"
    using assms(5) by (simp add: matchesBlock_def)
  have 2: "RecvUnpackSolMPI r (pre @ PackSendSolMPI s # rest) =
         Inr (r\<lparr>state := (state r)\<lparr>arrData := arrData (state s)\<rparr>,
                residual := (residual r)\<lparr>arrData := arrData (residual s)\<rparr>,
                dt := (dt r)\<lparr>arrData := arrData (dt s)\<rparr>,
                wallDist := (wallDist r)\<lparr>arrData := arrData (wallDist s)\<rparr>,
                avgWaveSpeed := (avgWaveSpeed r)\<lparr>arrData := arrData (avgWaveSpeed s)\<rparr>\<rparr>,
              pre @ rest)"
    if z: "Size (state r) = Size (state s) \<and> Size (residual r) = Size (residual s) \<and>
     Size (dt r) = Size (dt s) \<and> Size (wallDist r) = Size (wallDist s) \<and>
     Size (avgWaveSpeed r) = Size (avgWaveSpeed s)"
  proof -
    have rv: "MPI_Recv (rank r) (globalPos r) (pre @ PackSendSolMPI s # rest) =
              Inr (PackSendSolMPI s, pre @ rest)"
      by (rule MPI_Recv_first[OF pm]) (simp_all add: PackSendSolMPI_payload assms(3,4))
    have "fits5 r s" using z by (simp add: fits5_def)
    from unpack5[OF assms(1,2) this rv] show ?thesis by (simp add: unpacked5_def)
  qed
  have 4: "GetProcBlocksRecvBlock r (pre @ GetProcBlocksSend [s] @ rest) =
         Inr (r\<lparr>state := (state r)\<lparr>arrData := arrData (state s)\<rparr>,
                residual := (residual r)\<lparr>arrData := arrData (residual s)\<rparr>,
                dt := (dt r)\<lparr>arrData := arrData (dt s)\<rparr>,
                avgWaveSpeed := (avgWaveSpeed r)\<lparr>arrData := arrData (avgWaveSpeed s)\<rparr>\<rparr>,
              pre @ rest)"
    if z: "Size (state s) = (NumI r + 2 * numGhosts r) * (NumJ r + 2 * numGhosts r) *
                      (NumK r + 2 * numGhosts r) \<and>
     Size (residual s) = NumI r * NumJ r * NumK r \<and>
     Size (dt s) = NumI r * NumJ r * NumK r \<and>
     Size (avgWaveSpeed s) = NumI r * NumJ r * NumK r"
  proof -
    have rv: "MPI_Recv (rank r) (globalPos r) (pre @ gatherMessage s # rest) =
              Inr (gatherMessage s, pre @ rest)"
      by (rule MPI_Recv_first[OF pm]) (simp_all add: gatherMessage_def assms(3,4))
    have "fits4 r s" using z assms(1,2) by (simp add: fits4_def)
    from unpack4[OF this rv] show ?thesis
      by (simp add: unpacked4_def GetProcBlocksSend_gatherMessage)
  qed
  show ?thesis
    using PackSendSolMPI_payload[of s] 2 blocked5[OF assms(5)]
      GetProcBlocksSend_payload[of workerBlocks] 4 blocked4[OF assms(5)]
      GetProcBlocksRoot_gather[OF assms(6-9)]
    by (intro conjI impI) assumption+
qed


lemma gatherBlock_arrays:
  "arrData (state gatherBlock) = [[1, 2, 3, 4, 5, 6, 7]]"
  "arrData (residual gatherBlock) = [[8, 0, 0, 0, 0, 0, 0]]"
  "arrData (dt gatherBlock) = [3]" "arrData (wallDist gatherBlock) = [9]"
  "arrData (avgWaveSpeed gatherBlock) = [4]"
  "rank gatherBlock = 1" "globalPos gatherBlock = 5"
  by (simp_all add: gatherBlock_def mkArray_def)

text \<open>
  The buffer of \<open>PackSendSolMPI\<close> holds the wall distance (9 here) between the time
  step and the wave speed, so it is not the buffer of the four arrays state, residual, time
  step and wave speed alone.
\<close>

theorem PackSendSolMPI_packs_wallDist:
  "payload (PackSendSolMPI gatherBlock) =
     [1, 2, 3, 4, 5, 6, 7, 8, 0, 0, 0, 0, 0, 0, 3, 9, 4] \<and>
   payload (PackSendSolMPI gatherBlock) \<noteq>
     concat (arrData (state gatherBlock)) @ concat (arrData (residual gatherBlock)) @
     arrData (dt gatherBlock) @ arrData (avgWaveSpeed gatherBlock)"
  by (simp add: PackSendSolMPI_payload gatherBlock_arrays)

theorem solution_gather_roundtrip_witness:
  "(\<exists>b'. RecvUnpackSolMPI (coordBlock 1 5)
            [PackSendSolMPI (workerBlock 2 6 20), PackSendSolMPI (workerBlock 1 5 10)] =
            Inr (b', [PackSendSolMPI (workerBlock 2 6 20)]) \<and>
         arrData (state b') = replicate 27 (replicate NUMVARS 10) \<and>
         arrData (dt b') = [12] \<and> arrData (wallDist b') = [13] \<and>
         arrData (avgWaveSpeed b') = [14]) \<and>
   RecvUnpackSolMPI (coordBlock 1 5) [PackSendSolMPI (workerBlock 2 6 20)] = Inl Blocked \<and>
   map msgTag (GetProcBlocksSend [workerBlock 2 6 20, workerBlock 1 5 10]) = [6, 5] \<and>
   (\<exists>b'. GetProcBlocksRecvBlock (coordBlock 1 5)
            (GetProcBlocksSend [workerBlock 2 6 20, workerBlock 1 5 10]) =
            Inr (b', GetProcBlocksSend [workerBlock 2 6 20]) \<and>
         arrData (dt b') = [12] \<and> arrData (avgWaveSpeed b') = [14]) \<and>
   (\<exists>result. GetProcBlocksRoot [coordBlock 0 0, coordBlock 1 5, coordBlock 2 6]
                [workerBlock 0 0 30] 0
                (GetProcBlocksSend [workerBlock 2 6 20, workerBlock 1 5 10]) = Inr result \<and>
        length result = 3 \<and>
        result ! 0 = workerBlock 0 0 30 \<and>
        result ! 1 = unpacked4 (coordBlock 1 5) (workerBlock 1 5 10) \<and>
        result ! 2 = unpacked4 (coordBlock 2 6) (workerBlock 2 6 20))"
proof -
  let ?s = "workerBlock 1 5 10" and ?r = "coordBlock 1 5"
  let ?pre = "[PackSendSolMPI (workerBlock 2 6 20)]"
  let ?sent = "[workerBlock 2 6 20, workerBlock 1 5 10]"
  let ?blocks = "[coordBlock 0 0, coordBlock 1 5, coordBlock 2 6]"
  let ?loc = "[workerBlock 0 0 30]"
  have h3: "rank ?r = rank ?s" "globalPos ?r = globalPos ?s"
    by (simp_all add: workerBlock_fields coordBlock_fields)
  have h5: "\<forall>m \<in> set ?pre. \<not> matchesBlock ?r m"
    by (simp add: matchesBlock_def PackSendSolMPI_payload workerBlock_fields coordBlock_fields)
  have h6: "distinct (map blockKey ?sent)"
    by (simp add: blockKey_def workerBlock_fields)
  have h7: "distinct (map blockKey (filter (\<lambda>b. rank b \<noteq> ROOTP) ?blocks))"
    by (simp add: blockKey_def coordBlock_fields ROOTP_def)
  have h8: "\<forall>b \<in> set ?blocks. rank b \<noteq> ROOTP \<longrightarrow>
           (\<exists>w \<in> set ?sent. blockKey w = blockKey b \<and> fits4 b w)"
    by (simp add: blockKey_def coordBlock_fields workerBlock_fields fits4_worker ROOTP_def)
  have h9: "length (filter (\<lambda>b. rank b = ROOTP) ?blocks) \<le> length ?loc"
    by (simp add: coordBlock_fields ROOTP_def)
  note t = solution_gather_roundtrip[OF workerBlock_cellsOk h3 h5 h6 h7 h8 h9,
      of "[]" "[workerBlock 2 6 20, workerBlock 1 5 10]"]
  have z5: "Size (state ?r) = Size (state ?s) \<and> Size (residual ?r) = Size (residual ?s) \<and>
     Size (dt ?r) = Size (dt ?s) \<and> Size (wallDist ?r) = Size (wallDist ?s) \<and>
     Size (avgWaveSpeed ?r) = Size (avgWaveSpeed ?s)"
    by (simp add: workerBlock_fields coordBlock_fields)
  have z4: "Size (state ?s) = (NumI ?r + 2 * numGhosts ?r) * (NumJ ?r + 2 * numGhosts ?r) *
                      (NumK ?r + 2 * numGhosts ?r) \<and>
     Size (residual ?s) = NumI ?r * NumJ ?r * NumK ?r \<and>
     Size (dt ?s) = NumI ?r * NumJ ?r * NumK ?r \<and>
     Size (avgWaveSpeed ?s) = NumI ?r * NumJ ?r * NumK ?r"
    by (simp add: workerBlock_fields coordBlock_fields)
  note t1 = t[THEN conjunct2]
  note t2 = t1[THEN conjunct2]
  note t3 = t2[THEN conjunct2]
  note t4 = t3[THEN conjunct2]
  note t5 = t4[THEN conjunct2]
  have e2: "RecvUnpackSolMPI ?r [PackSendSolMPI (workerBlock 2 6 20), PackSendSolMPI ?s] =
         Inr (?r\<lparr>state := (state ?r)\<lparr>arrData := arrData (state ?s)\<rparr>,
                residual := (residual ?r)\<lparr>arrData := arrData (residual ?s)\<rparr>,
                dt := (dt ?r)\<lparr>arrData := arrData (dt ?s)\<rparr>,
                wallDist := (wallDist ?r)\<lparr>arrData := arrData (wallDist ?s)\<rparr>,
                avgWaveSpeed := (avgWaveSpeed ?r)\<lparr>arrData := arrData (avgWaveSpeed ?s)\<rparr>\<rparr>,
              [PackSendSolMPI (workerBlock 2 6 20)])"
    using mp[OF t1[THEN conjunct1] z5] by simp
  have c2: "\<exists>b'. RecvUnpackSolMPI ?r [PackSendSolMPI (workerBlock 2 6 20), PackSendSolMPI ?s] =
            Inr (b', [PackSendSolMPI (workerBlock 2 6 20)]) \<and>
         arrData (state b') = replicate 27 (replicate NUMVARS 10) \<and>
         arrData (dt b') = [12] \<and> arrData (wallDist b') = [13] \<and>
         arrData (avgWaveSpeed b') = [14]"
    unfolding e2 by (simp add: workerBlock_fields)
  have c3: "RecvUnpackSolMPI ?r [PackSendSolMPI (workerBlock 2 6 20)] = Inl Blocked"
    using t2[THEN conjunct1] .
  have c4: "map msgTag (GetProcBlocksSend ?sent) = [6, 5]"
    unfolding t3[THEN conjunct1] by (simp add: workerBlock_fields)
  have e5: "GetProcBlocksRecvBlock ?r (GetProcBlocksSend ?sent) =
         Inr (?r\<lparr>state := (state ?r)\<lparr>arrData := arrData (state ?s)\<rparr>,
                residual := (residual ?r)\<lparr>arrData := arrData (residual ?s)\<rparr>,
                dt := (dt ?r)\<lparr>arrData := arrData (dt ?s)\<rparr>,
                avgWaveSpeed := (avgWaveSpeed ?r)\<lparr>arrData := arrData (avgWaveSpeed ?s)\<rparr>\<rparr>,
              GetProcBlocksSend [workerBlock 2 6 20])"
  proof -
    have g: "GetProcBlocksSend ?sent = GetProcBlocksSend [workerBlock 2 6 20] @ GetProcBlocksSend [?s] @ []"
      "GetProcBlocksSend [workerBlock 2 6 20] = [gatherMessage (workerBlock 2 6 20)]"
      by (simp_all add: GetProcBlocksSend_gatherMessage)
    have h5': "\<forall>m \<in> set (GetProcBlocksSend [workerBlock 2 6 20]). \<not> matchesBlock ?r m"
      by (simp add: g(2) matchesBlock_def gatherMessage_def workerBlock_fields coordBlock_fields)
    note u = solution_gather_roundtrip[OF workerBlock_cellsOk h3 h5' h6 h7 h8 h9, of "[]" "[]"]
    from mp[OF u[THEN conjunct2, THEN conjunct2, THEN conjunct2, THEN conjunct2, THEN conjunct1] z4]
    show ?thesis unfolding g(1) by simp
  qed
  have c5: "\<exists>b'. GetProcBlocksRecvBlock ?r (GetProcBlocksSend ?sent) =
            Inr (b', GetProcBlocksSend [workerBlock 2 6 20]) \<and>
         arrData (dt b') = [12] \<and> arrData (avgWaveSpeed b') = [14]"
    unfolding e5 by (simp add: workerBlock_fields)
  from t5[THEN conjunct2] obtain result where
    r: "GetProcBlocksRoot ?blocks ?loc 0 (GetProcBlocksSend ?sent) = Inr result"
      "length result = length ?blocks"
      "\<forall>n < length ?blocks.
          (rank (?blocks ! n) = ROOTP \<longrightarrow>
             result ! n = ?loc ! length (filter (\<lambda>b. rank b = ROOTP) (take n ?blocks))) \<and>
          (rank (?blocks ! n) \<noteq> ROOTP \<longrightarrow>
             (\<exists>w \<in> set ?sent. blockKey w = blockKey (?blocks ! n) \<and>
                result ! n = unpacked4 (?blocks ! n) w))"
    by blast
  have r0: "result ! 0 = workerBlock 0 0 30"
    using r(3)[rule_format, of 0] by (simp add: coordBlock_fields ROOTP_def)
  have r1: "result ! 1 = unpacked4 (coordBlock 1 5) (workerBlock 1 5 10)"
    using r(3)[rule_format, of 1]
    by (simp add: coordBlock_fields workerBlock_fields ROOTP_def blockKey_def)
  have r2: "result ! 2 = unpacked4 (coordBlock 2 6) (workerBlock 2 6 20)"
    using r(3)[rule_format, of 2]
    by (simp add: coordBlock_fields workerBlock_fields ROOTP_def blockKey_def)
  have c6: "\<exists>result. GetProcBlocksRoot ?blocks ?loc 0 (GetProcBlocksSend ?sent) = Inr result \<and>
        length result = 3 \<and>
        result ! 0 = workerBlock 0 0 30 \<and>
        result ! 1 = unpacked4 (coordBlock 1 5) (workerBlock 1 5 10) \<and>
        result ! 2 = unpacked4 (coordBlock 2 6) (workerBlock 2 6 20)"
    using r(1,2) r0 r1 r2 by simp
  show ?thesis using c2 c3 c4 c5 c6 by (intro conjI)
qed

section \<open>Properties of the ghost geometry\<close>

lemma tabulate3_dims [simp]:
  "arrNumI (tabulate3 ni nj nk f) = ni" "arrNumJ (tabulate3 ni nj nk f) = nj"
  "arrNumK (tabulate3 ni nj nk f) = nk"
  "Size (tabulate3 ni nj nk f) = int (nat (ni * nj * nk))"
  by (simp_all add: tabulate3_def Size_def)

lemma at3_tabulate3:
  assumes "0 \<le> i" "i < ni" "0 \<le> j" "j < nj" "0 \<le> k" "k < nk"
  shows "at3 (tabulate3 ni nj nk f) i j k = f i j k"
proof -
  let ?a = "tabulate3 ni nj nk f"
  let ?l = "i + j * ni + k * ni * nj"
  have r: "inRange ?a i j k" using assms by (simp add: inRange_def)
  have b: "0 \<le> ?l" "?l < ni * nj * nk"
    using GetLoc1D_bound[OF r] by (simp_all add: GetLoc1D_def)
  have lt: "nat ?l < nat (ni * nj * nk)" using b by linarith
  have "at3 ?a i j k = arrData ?a ! nat ?l" by (simp add: at3_def GetLoc1D_def)
  also have "\<dots> = f (int (nat ?l) mod ni) ((int (nat ?l) div ni) mod nj) ((int (nat ?l) div ni) div nj)"
    unfolding tabulate3_def using lt by (simp del: of_nat_add of_nat_mult)
  also have "int (nat ?l) = ?l" using b by simp
  finally show ?thesis using loc_split[OF assms(1-4), of k] by simp
qed

lemma Slice_dims [simp]:
  "arrNumI (Slice a (ilo, ihi, jlo, jhi, klo, khi)) = ihi - ilo + 1"
  "arrNumJ (Slice a (ilo, ihi, jlo, jhi, klo, khi)) = jhi - jlo + 1"
  "arrNumK (Slice a (ilo, ihi, jlo, jhi, klo, khi)) = khi - klo + 1"
  by simp_all

lemma at3_Slice:
  assumes "inBox (ilo, ihi, jlo, jhi, klo, khi) (i, j, k)"
  shows "at3 (Slice a (ilo, ihi, jlo, jhi, klo, khi)) (i - ilo) (j - jlo) (k - klo) = at3 a i j k"
  using assms by (simp add: at3_tabulate3)

lemma boxCells_set: "set (boxCells bx) = {c. inBox bx c}"
proof -
  obtain ilo ihi jlo jhi klo khi where bx: "bx = (ilo, ihi, jlo, jhi, klo, khi)"
    by (cases bx) auto
  show ?thesis unfolding bx by (auto simp: image_iff)
qed

lemma boxCells_distinct: "distinct (boxCells bx)"
proof -
  obtain ilo ihi jlo jhi klo khi where bx: "bx = (ilo, ihi, jlo, jhi, klo, khi)"
    by (cases bx) auto
  show ?thesis unfolding bx boxCells.simps
    apply (rule distinct_concat_map, simp)
     apply (rule distinct_concat_map, simp)
      apply (simp add: distinct_map inj_on_def)
     apply (auto)[1]
    apply (auto)[1]
    done
qed

lemma Insert_shape:
  assumes "shapeOf arr = boxDims bx"
  shows "Insert a bx arr = Inr (inserted a bx arr)"
proof -
  obtain ilo ihi jlo jhi klo khi where bx: "bx = (ilo, ihi, jlo, jhi, klo, khi)"
    by (cases bx) auto
  have "(\<lambda>c a. set3c a c (case c of (ii, jj, kk) \<Rightarrow> at3 arr (ii - ilo) (jj - jlo) (kk - klo))) =
        (\<lambda>c a. set3c a c (at3c arr (rel bx c)))"
    by (intro ext) (auto simp: bx at3c_def split: prod.splits)
  then show ?thesis using assms unfolding bx inserted_def sweep_def
    by (simp add: shapeOf_def)
qed

lemma inserted_dims [simp]:
  "arrNumI (inserted a bx arr) = arrNumI a" "arrNumJ (inserted a bx arr) = arrNumJ a"
  "arrNumK (inserted a bx arr) = arrNumK a" "Size (inserted a bx arr) = Size a"
  by (simp_all add: inserted_def)

lemma inserted_hasDims [simp]: "hasDims (inserted a bx arr) ni nj nk = hasDims a ni nj nk"
  by (simp add: inserted_def)

lemma inserted_inRangeC [simp]: "inRangeC (inserted a bx arr) c = inRangeC a c"
  by (simp add: inserted_def)

lemma inserted_boxIn [simp]: "boxIn (inserted a bx arr) bx' = boxIn a bx'"
  by (simp add: boxIn_def)

lemma inserted_shapeOf [simp]: "shapeOf (inserted a bx arr) = shapeOf a"
  by (simp add: shapeOf_def)

lemma at3c_inserted:
  assumes "Size a = arrNumI a * arrNumJ a * arrNumK a" "boxIn a bx" "inRangeC a p"
  shows "at3c (inserted a bx arr) p = (if inBox bx p then at3c arr (rel bx p) else at3c a p)"
proof -
  have r: "\<forall>c \<in> set (boxCells bx). inRangeC a ((\<lambda>c. c) c)"
    using assms(2) by (simp add: boxCells_set boxIn_def)
  have i: "inj_on (\<lambda>c. c) (set (boxCells bx))" by (simp add: inj_on_def)
  show ?thesis
  proof (cases "inBox bx p")
    case True
    then have "p \<in> set (boxCells bx)" by (simp add: boxCells_set)
    from sweep_at_in[OF assms(1) r i boxCells_distinct this] True
    show ?thesis by (simp add: inserted_def)
  next
    case False
    then have "p \<notin> (\<lambda>c. c) ` set (boxCells bx)" by (simp add: boxCells_set)
    from sweep_at_out[OF assms(1) r i boxCells_distinct assms(3) this] False
    show ?thesis by (simp add: inserted_def)
  qed
qed

lemma shapeOf_Slice [simp]: "shapeOf (Slice a bx) = boxDims bx"
  by (cases bx) (simp add: shapeOf_def)

lemma wfArray_Slice: "okBox bx \<Longrightarrow> wfArray (Slice a bx)"
  by (cases bx) (simp add: wfArray_def)

lemma inRangeC_rel:
  "shapeOf x = boxDims bx \<Longrightarrow> inBox bx p \<Longrightarrow> inRangeC x (rel bx p)"
  by (cases bx; cases p) (auto simp: shapeOf_def inRangeC_def inRange_def)

lemma at3c_Slice: "inBox bx p \<Longrightarrow> at3c (Slice a bx) (rel bx p) = at3c a p"
  by (cases bx; cases p) (simp add: at3c_def at3_tabulate3)

lemma shapeOf_arr [simp]:
  "shapeOf (arrPlus x y) = shapeOf x" "shapeOf (arrMinus x y) = shapeOf x"
  "shapeOf (arrScale x s) = shapeOf x"
  by (simp_all add: shapeOf_def arrPlus_def arrMinus_def arrScale_def)

lemma wfArray_arr:
  assumes "wfArray x" "wfArray y" "shapeOf y = shapeOf x"
  shows "wfArray (arrPlus x y)" "wfArray (arrMinus x y)"
  using assms by (auto simp: wfArray_def shapeOf_def arrPlus_def arrMinus_def Size_def)

lemma at3c_arr:
  assumes "wfArray x" "wfArray y" "shapeOf y = shapeOf x" "inRangeC x q"
  shows "at3c (arrPlus x y) q = at3c x q + at3c y q"
    and "at3c (arrMinus x y) q = at3c x q - at3c y q"
proof -
  obtain i j k where q: "q = (i, j, k)" by (cases q) auto
  have r: "inRange x i j k" using assms(4) by (simp add: q inRangeC_def)
  have b: "0 \<le> GetLoc1D x i j k" "GetLoc1D x i j k < arrNumI x * arrNumJ x * arrNumK x"
    using GetLoc1D_bound[OF r] by simp_all
  have g: "GetLoc1D y i j k = GetLoc1D x i j k"
    using assms(3) by (simp add: GetLoc1D_def shapeOf_def)
  have lx: "nat (GetLoc1D x i j k) < length (arrData x)"
    using b assms(1) by (simp add: wfArray_def Size_def) linarith
  have ly: "nat (GetLoc1D x i j k) < length (arrData y)"
    using b assms(2,3) by (simp add: wfArray_def Size_def shapeOf_def) linarith
  have gp: "GetLoc1D (arrPlus x y) i j k = GetLoc1D x i j k"
    "GetLoc1D (arrMinus x y) i j k = GetLoc1D x i j k"
    by (simp_all add: GetLoc1D_def arrPlus_def arrMinus_def)
  have dp: "arrData (arrPlus x y) = map2 (+) (arrData x) (arrData y)"
    "arrData (arrMinus x y) = map2 (-) (arrData x) (arrData y)"
    by (simp_all add: arrPlus_def arrMinus_def)
  show "at3c (arrPlus x y) q = at3c x q + at3c y q"
    using lx ly by (simp add: q at3c_def at3_def gp dp g)
  show "at3c (arrMinus x y) q = at3c x q - at3c y q"
    using lx ly by (simp add: q at3c_def at3_def gp dp g)
qed

lemma boxDims_layerBox: "boxDims (layerBox d n bx) = boxDims (layerBox d m bx)"
  by (cases d; cases bx) simp_all

lemma boxDims_faceBox: "boxDims (faceBox d e bx c f) = boxDims (faceBox d e bx c' f')"
  by (cases d; cases e; cases bx) (simp_all add: faceBox_def)

lemma shapeOf_Grow:
  "shapeOf a = (ni, nj, nk) \<Longrightarrow> shapeOf (GrowI a) = (ni + 1, nj, nk)"
  "shapeOf a = (ni, nj, nk) \<Longrightarrow> shapeOf (GrowJ a) = (ni, nj + 1, nk)"
  "shapeOf a = (ni, nj, nk) \<Longrightarrow> shapeOf (GrowK a) = (ni, nj, nk + 1)"
  by (simp_all add: shapeOf_def GrowI_def GrowJ_def GrowK_def)

lemma shapeOf_grown:
  assumes "shapeOf dm = boxDims (layerBox d n bx)"
  shows "shapeOf (grown d e dm) = boxDims (faceBox d e bx c f)"
  using assms by (cases d; cases e; cases bx) (simp_all add: grown_def faceBox_def shapeOf_Grow)

lemma bindE_Inr [simp]: "bindE (Inr x) f = f x"
  by (simp add: bindE_def)

lemma ghostVol_ok:
  "\<exists>X Y. ghostVol d bx ix thin v =
     Inr (inserted (inserted v (layerBox d (g1 ix) bx) X) (layerBox d (g2 ix) bx) Y)"
proof -
  have 1: "Insert v (layerBox d (g1 ix) bx) (Slice v (layerBox d (i1 ix) bx)) =
           Inr (inserted v (layerBox d (g1 ix) bx) (Slice v (layerBox d (i1 ix) bx)))"
    by (rule Insert_shape) (simp add: boxDims_layerBox[of d "i1 ix" bx "g1 ix"])
  have 2: "Insert w (layerBox d (g2 ix) bx) (Slice w (layerBox d n bx)) =
           Inr (inserted w (layerBox d (g2 ix) bx) (Slice w (layerBox d n bx)))" for w n
    by (rule Insert_shape) (simp add: boxDims_layerBox[of d n bx "g2 ix"])
  show ?thesis unfolding ghostVol_def 1 bindE_Inr 2 by blast
qed

lemma ghostFArea_ok:
  "\<exists>X Y. ghostFArea d e bx ix thin a =
     Inr (inserted (inserted a (faceBox d e bx (g1 ix) (fg1 ix)) X) (faceBox d e bx (g2 ix) (fg2 ix)) Y)"
proof -
  have 1: "Insert w (faceBox d e bx c f) (Slice w (faceBox d e bx c' f')) =
           Inr (inserted w (faceBox d e bx c f) (Slice w (faceBox d e bx c' f')))" for w c f c' f'
    by (rule Insert_shape) (simp add: boxDims_faceBox[of d e bx c' f' c f])
  show ?thesis unfolding ghostFArea_def 1 bindE_Inr
    by (cases thin) (simp_all add: 1, blast+)
qed

lemma ghostFCenter_ok:
  assumes "shapeOf mv = boxDims (faceBox d e bx c f)"
  shows "ghostFCenter d e bx ix c f mv a =
     Inr (inserted a (faceBox d e bx c f) (arrPlus (Slice a (faceBox d e bx (i1 ix) (bnd ix))) mv))"
  unfolding ghostFCenter_def
  by (rule Insert_shape) (simp add: boxDims_faceBox[of d e bx "i1 ix" "bnd ix" c f])

lemma sameDims_inserted [simp]: "sameDims (inserted a bx arr) a"
  by (simp add: sameDims_def)

lemma AssignGhostCellsGeomSurface_explicit:
  "\<exists>v aI aJ aK A2 XI YI XJ YJ XK YK.
     AssignGhostCellsGeomSurface d bx ix b =
       Inr (b\<lparr>vol := v, fAreaI := aI, fAreaJ := aJ, fAreaK := aK,
              center := inserted (inserted (center b) (layerBox d (g1 ix) bx)
                          (arrPlus (Slice (center b) (layerBox d (i1 ix) bx))
                             (arrMinus (Slice (fCenter d b) (layerBox d (bnd ix) bx))
                                       (Slice (fCenter d b) (layerBox d (fi1 ix) bx)))))
                        (layerBox d (g2 ix) bx) A2,
              fCenterI := inserted (inserted (fCenterI b) (faceBox d DirI bx (g1 ix) (fg1 ix)) XI)
                            (faceBox d DirI bx (g2 ix) (fg2 ix)) YI,
              fCenterJ := inserted (inserted (fCenterJ b) (faceBox d DirJ bx (g1 ix) (fg1 ix)) XJ)
                            (faceBox d DirJ bx (g2 ix) (fg2 ix)) YJ,
              fCenterK := inserted (inserted (fCenterK b) (faceBox d DirK bx (g1 ix) (fg1 ix)) XK)
                            (faceBox d DirK bx (g2 ix) (fg2 ix)) YK\<rparr>) \<and>
     sameDims v (vol b) \<and> sameDims aI (fAreaI b) \<and> sameDims aJ (fAreaJ b) \<and>
     sameDims aK (fAreaK b)"
proof -
  let ?thin = "NumDir d b < 2"
  let ?dm = "arrMinus (Slice (fCenter d b) (layerBox d (bnd ix) bx))
                      (Slice (fCenter d b) (layerBox d (fi1 ix) bx))"
  obtain X Y where v: "ghostVol d bx ix ?thin (vol b) =
      Inr (inserted (inserted (vol b) (layerBox d (g1 ix) bx) X) (layerBox d (g2 ix) bx) Y)"
    using ghostVol_ok by blast
  obtain XI YI where aI: "ghostFArea d DirI bx ix ?thin (fAreaI b) =
      Inr (inserted (inserted (fAreaI b) (faceBox d DirI bx (g1 ix) (fg1 ix)) XI) (faceBox d DirI bx (g2 ix) (fg2 ix)) YI)"
    using ghostFArea_ok by blast
  obtain XJ YJ where aJ: "ghostFArea d DirJ bx ix ?thin (fAreaJ b) =
      Inr (inserted (inserted (fAreaJ b) (faceBox d DirJ bx (g1 ix) (fg1 ix)) XJ) (faceBox d DirJ bx (g2 ix) (fg2 ix)) YJ)"
    using ghostFArea_ok by blast
  obtain XK YK where aK: "ghostFArea d DirK bx ix ?thin (fAreaK b) =
      Inr (inserted (inserted (fAreaK b) (faceBox d DirK bx (g1 ix) (fg1 ix)) XK) (faceBox d DirK bx (g2 ix) (fg2 ix)) YK)"
    using ghostFArea_ok by blast
  have sdm: "shapeOf ?dm = boxDims (layerBox d n bx)" for n
    by (simp add: boxDims_layerBox[of d "bnd ix" bx n])
  have c1: "Insert (center b) (layerBox d (g1 ix) bx)
              (arrPlus (Slice (center b) (layerBox d (i1 ix) bx)) ?dm) =
            Inr (inserted (center b) (layerBox d (g1 ix) bx)
              (arrPlus (Slice (center b) (layerBox d (i1 ix) bx)) ?dm))"
    by (rule Insert_shape) (simp add: boxDims_layerBox[of d "i1 ix" bx "g1 ix"])
  have c2: "Insert w (layerBox d (g2 ix) bx) (arrPlus (Slice w (layerBox d (i1 ix) bx)) m) =
            Inr (inserted w (layerBox d (g2 ix) bx) (arrPlus (Slice w (layerBox d (i1 ix) bx)) m))" for w m
    by (rule Insert_shape) (simp add: boxDims_layerBox[of d "i1 ix" bx "g2 ix"])
  have f1: "ghostFCenter d e bx ix (g1 ix) (fg1 ix) (grown d e ?dm) a =
     Inr (inserted a (faceBox d e bx (g1 ix) (fg1 ix))
            (arrPlus (Slice a (faceBox d e bx (i1 ix) (bnd ix))) (grown d e ?dm)))" for e a
    by (rule ghostFCenter_ok) (rule shapeOf_grown[OF sdm])
  have f2a: "ghostFCenter d e bx ix (g2 ix) (fg2 ix) (arrScale (grown d e ?dm) 2) a =
     Inr (inserted a (faceBox d e bx (g2 ix) (fg2 ix))
            (arrPlus (Slice a (faceBox d e bx (i1 ix) (bnd ix))) (arrScale (grown d e ?dm) 2)))" for e a
    by (rule ghostFCenter_ok) (simp add: shapeOf_grown[OF sdm])
  have f2b: "ghostFCenter d e bx ix (g2 ix) (fg2 ix)
              (grown d e (arrMinus (Slice w (layerBox d (bnd ix) bx)) (Slice w (layerBox d (fi2 ix) bx)))) a =
     Inr (inserted a (faceBox d e bx (g2 ix) (fg2 ix))
            (arrPlus (Slice a (faceBox d e bx (i1 ix) (bnd ix)))
               (grown d e (arrMinus (Slice w (layerBox d (bnd ix) bx)) (Slice w (layerBox d (fi2 ix) bx))))))"
    for e a w
  proof (rule ghostFCenter_ok)
    have "shapeOf (arrMinus (Slice w (layerBox d (bnd ix) bx)) (Slice w (layerBox d (fi2 ix) bx))) =
          boxDims (layerBox d 0 bx)"
      by (simp add: boxDims_layerBox[of d "bnd ix" bx 0])
    from shapeOf_grown[OF this]
    show "shapeOf (grown d e (arrMinus (Slice w (layerBox d (bnd ix) bx)) (Slice w (layerBox d (fi2 ix) bx)))) =
          boxDims (faceBox d e bx (g2 ix) (fg2 ix))" .
  qed
  show ?thesis
  proof (cases ?thin)
    case True
    show ?thesis
      unfolding AssignGhostCellsGeomSurface_def Let_def v aI aJ aK bindE_Inr c1 f1 c2
      using True apply (simp add: f2a)
      apply (intro exI conjI)
      apply (rule refl)
      apply (simp_all add: sameDims_def)
      done
  next
    case False
    show ?thesis
      unfolding AssignGhostCellsGeomSurface_def Let_def v aI aJ aK bindE_Inr c1 f1 c2
      using False apply (simp add: f2b)
      apply (intro exI conjI)
      apply (rule refl)
      apply (simp_all add: sameDims_def)
      done
  qed
qed

lemma goodBlock_center:
  assumes "goodBlock b"
  shows "hasDims (center b) (NumI b + 4) (NumJ b + 4) (NumK b + 4)"
    and "hasDims (fCenterI b) (NumI b + 5) (NumJ b + 4) (NumK b + 4)"
    and "hasDims (fCenterJ b) (NumI b + 4) (NumJ b + 5) (NumK b + 4)"
    and "hasDims (fCenterK b) (NumI b + 4) (NumJ b + 4) (NumK b + 5)"
  using assms by (auto simp: goodBlock_def wfBlock_def Let_def add.commute)

lemma rel_layerBox:
  assumes "inBox (layerBox d n bx) p"
  shows "rel (layerBox d n bx) p = rel (layerBox d m bx) (stepDir d (m - n) p)"
    and "inBox (layerBox d m bx) (stepDir d (m - n) p)"
  using assms by (cases d; cases bx; cases p; simp)+

lemma okBox_layerBox: "tangIn d b bx \<Longrightarrow> okBox (layerBox d n bx)"
  by (cases d; cases bx) simp_all

lemma inBox_layer_index: "inBox (layerBox d n bx) p \<Longrightarrow> dirIndex d p = n"
  by (cases d; cases bx; cases p) simp_all

lemma layer_cases:
  assumes "layerOk d b ix" "goodBlock b"
  shows "(g1 ix = 1 \<and> g2 ix = 0 \<and> i1 ix = 2 \<and> fg1 ix = 1 \<and> fg2 ix = 0 \<and> bnd ix = 2 \<and> fi1 ix = 3) \<or>
         (g1 ix = NumDir d b + 2 \<and> g2 ix = NumDir d b + 3 \<and> i1 ix = NumDir d b + 1 \<and>
          fg1 ix = NumDir d b + 3 \<and> fg2 ix = NumDir d b + 4 \<and> bnd ix = NumDir d b + 2 \<and>
          fi1 ix = NumDir d b + 1)"
  using assms unfolding layerOk_def goodBlock_def lowerIndices_def upperIndices_def by auto

lemma boxIn_center:
  assumes "goodBlock b" "tangIn d b bx" "0 \<le> n" "n \<le> NumDir d b + 3"
  shows "boxIn (center b) (layerBox d n bx)"
  using assms goodBlock_center(1)[OF assms(1)]
  unfolding boxIn_def goodBlock_def
  by (cases d; cases bx) (auto simp: inRangeC_def inRange_def hasDims_def)

lemma boxIn_fCenter:
  assumes "goodBlock b" "tangIn d b bx" "0 \<le> c" "c \<le> NumDir d b + 3" "0 \<le> f" "f \<le> NumDir d b + 4"
  shows "boxIn (fCenter e b) (faceBox d e bx c f)"
  using assms goodBlock_center[OF assms(1)]
  unfolding boxIn_def goodBlock_def faceBox_def
  by (cases d; cases e; cases bx) (auto simp: inRangeC_def inRange_def hasDims_def)

lemma hasDims_Size: "hasDims a ni nj nk \<Longrightarrow> Size a = arrNumI a * arrNumJ a * arrNumK a"
  by (simp add: hasDims_def)

lemma hasDims_sameDims: "sameDims a' a \<Longrightarrow> hasDims a' ni nj nk = hasDims a ni nj nk"
  by (auto simp: hasDims_def sameDims_def)

lemma inserted2_frame:
  assumes "hasDims a ni nj nk" "boxIn a bx1" "boxIn a bx2" "inRangeC a p"
    "\<not> inBox bx1 p" "\<not> inBox bx2 p"
  shows "at3c (inserted (inserted a bx1 X) bx2 Y) p = at3c a p"
proof -
  have s: "Size a = arrNumI a * arrNumJ a * arrNumK a" using assms(1) by (rule hasDims_Size)
  have "at3c (inserted (inserted a bx1 X) bx2 Y) p = at3c (inserted a bx1 X) p"
    using at3c_inserted[of "inserted a bx1 X" bx2 p Y] s assms(3,4,6) by simp
  also have "\<dots> = at3c a p"
    using at3c_inserted[of a bx1 p X] s assms(2,4,5) by simp
  finally show ?thesis .
qed

lemma inserted2_first:
  assumes "hasDims a ni nj nk" "boxIn a bx1" "boxIn a bx2" "inBox bx1 p" "\<not> inBox bx2 p"
  shows "at3c (inserted (inserted a bx1 X) bx2 Y) p = at3c X (rel bx1 p)"
proof -
  have s: "Size a = arrNumI a * arrNumJ a * arrNumK a" using assms(1) by (rule hasDims_Size)
  have r: "inRangeC a p" using assms(2,4) unfolding boxIn_def by blast
  have "at3c (inserted (inserted a bx1 X) bx2 Y) p = at3c (inserted a bx1 X) p"
    using at3c_inserted[of "inserted a bx1 X" bx2 p Y] s assms(3,5) r by simp
  also have "\<dots> = at3c X (rel bx1 p)"
    using at3c_inserted[of a bx1 p X] s assms(2,4) r by simp
  finally show ?thesis .
qed

lemma moved_slice:
  assumes "tangIn d b bx" "inBox (layerBox d n bx) p"
  shows "at3c (arrPlus (Slice cen (layerBox d m bx))
            (arrMinus (Slice fc (layerBox d u bx)) (Slice fc (layerBox d w bx))))
           (rel (layerBox d n bx) p) =
         at3c cen (stepDir d (m - n) p) +
         (at3c fc (stepDir d (u - n) p) - at3c fc (stepDir d (w - n) p))"
proof -
  let ?q = "rel (layerBox d n bx) p"
  have ok: "okBox (layerBox d k bx)" for k using assms(1) by (rule okBox_layerBox)
  have w: "wfArray (Slice a (layerBox d k bx))" for a :: "vector3d multiArray3d" and k
    using ok by (rule wfArray_Slice)
  have sh: "shapeOf (Slice a (layerBox d k bx)) = boxDims (layerBox d n bx)"
    for a :: "vector3d multiArray3d" and k
    by (simp add: boxDims_layerBox[of d k bx n])
  have rq: "inRangeC (Slice a (layerBox d k bx)) ?q" for a :: "vector3d multiArray3d" and k
    using inRangeC_rel[OF sh assms(2)] .
  have sl: "at3c (Slice a (layerBox d k bx)) ?q = at3c a (stepDir d (k - n) p)"
    for a :: "vector3d multiArray3d" and k
    using rel_layerBox[OF assms(2), of k] at3c_Slice[of "layerBox d k bx" "stepDir d (k - n) p" a]
    by simp
  have wm: "wfArray (arrMinus (Slice fc (layerBox d u bx)) (Slice fc (layerBox d w bx)))"
    by (rule wfArray_arr(2)) (simp_all add: w boxDims_layerBox[of d w bx u])
  have "at3c (arrPlus (Slice cen (layerBox d m bx))
            (arrMinus (Slice fc (layerBox d u bx)) (Slice fc (layerBox d w bx)))) ?q =
        at3c (Slice cen (layerBox d m bx)) ?q +
        at3c (arrMinus (Slice fc (layerBox d u bx)) (Slice fc (layerBox d w bx))) ?q"
    by (rule at3c_arr(1)) (simp_all add: w wm rq boxDims_layerBox[of d u bx m])
  also have "at3c (arrMinus (Slice fc (layerBox d u bx)) (Slice fc (layerBox d w bx))) ?q =
        at3c (Slice fc (layerBox d u bx)) ?q - at3c (Slice fc (layerBox d w bx)) ?q"
    by (rule at3c_arr(2)) (simp_all add: w rq boxDims_layerBox[of d w bx u])
  finally show ?thesis by (simp add: sl)
qed

lemma AssignGhostCellsGeomSurface_step:
  assumes g: "goodBlock b" and t: "tangIn d b bx" and l: "layerOk d b ix"
  shows "\<exists>b'. AssignGhostCellsGeomSurface d bx ix b = Inr b' \<and> goodBlock b' \<and>
           residual b' = residual b \<and> bc b' = bc b \<and> numGhosts b' = numGhosts b \<and>
           (\<forall>p. inRangeC (center b) p \<and> \<not> inBox (layerBox d (g1 ix) bx) p \<and>
                \<not> inBox (layerBox d (g2 ix) bx) p \<longrightarrow> at3c (center b') p = at3c (center b) p) \<and>
           (\<forall>p. inBox (layerBox d (g1 ix) bx) p \<longrightarrow> at3c (center b') p = movedCenter d ix b p) \<and>
           (\<forall>e p. inRangeC (fCenter e b) p \<and> \<not> inBox (faceBox d e bx (g1 ix) (fg1 ix)) p \<and>
                \<not> inBox (faceBox d e bx (g2 ix) (fg2 ix)) p \<longrightarrow>
                at3c (fCenter e b') p = at3c (fCenter e b) p)"
proof -
  let ?L1 = "layerBox d (g1 ix) bx" and ?L2 = "layerBox d (g2 ix) bx"
  let ?A1 = "arrPlus (Slice (center b) (layerBox d (i1 ix) bx))
               (arrMinus (Slice (fCenter d b) (layerBox d (bnd ix) bx))
                         (Slice (fCenter d b) (layerBox d (fi1 ix) bx)))"
  obtain v aI aJ aK A2 XI YI XJ YJ XK YK where
    ex: "AssignGhostCellsGeomSurface d bx ix b =
       Inr (b\<lparr>vol := v, fAreaI := aI, fAreaJ := aJ, fAreaK := aK,
              center := inserted (inserted (center b) ?L1 ?A1) ?L2 A2,
              fCenterI := inserted (inserted (fCenterI b) (faceBox d DirI bx (g1 ix) (fg1 ix)) XI)
                            (faceBox d DirI bx (g2 ix) (fg2 ix)) YI,
              fCenterJ := inserted (inserted (fCenterJ b) (faceBox d DirJ bx (g1 ix) (fg1 ix)) XJ)
                            (faceBox d DirJ bx (g2 ix) (fg2 ix)) YJ,
              fCenterK := inserted (inserted (fCenterK b) (faceBox d DirK bx (g1 ix) (fg1 ix)) XK)
                            (faceBox d DirK bx (g2 ix) (fg2 ix)) YK\<rparr>)"
    and sd: "sameDims v (vol b)" "sameDims aI (fAreaI b)" "sameDims aJ (fAreaJ b)"
      "sameDims aK (fAreaK b)"
    using AssignGhostCellsGeomSurface_explicit[of d bx ix b] by blast
  define b' where "b' = b\<lparr>vol := v, fAreaI := aI, fAreaJ := aJ, fAreaK := aK,
              center := inserted (inserted (center b) ?L1 ?A1) ?L2 A2,
              fCenterI := inserted (inserted (fCenterI b) (faceBox d DirI bx (g1 ix) (fg1 ix)) XI)
                            (faceBox d DirI bx (g2 ix) (fg2 ix)) YI,
              fCenterJ := inserted (inserted (fCenterJ b) (faceBox d DirJ bx (g1 ix) (fg1 ix)) XJ)
                            (faceBox d DirJ bx (g2 ix) (fg2 ix)) YJ,
              fCenterK := inserted (inserted (fCenterK b) (faceBox d DirK bx (g1 ix) (fg1 ix)) XK)
                            (faceBox d DirK bx (g2 ix) (fg2 ix)) YK\<rparr>"
  have lc: "(g1 ix = 1 \<and> g2 ix = 0 \<and> i1 ix = 2 \<and> fg1 ix = 1 \<and> fg2 ix = 0 \<and> bnd ix = 2 \<and> fi1 ix = 3) \<or>
         (g1 ix = NumDir d b + 2 \<and> g2 ix = NumDir d b + 3 \<and> i1 ix = NumDir d b + 1 \<and>
          fg1 ix = NumDir d b + 3 \<and> fg2 ix = NumDir d b + 4 \<and> bnd ix = NumDir d b + 2 \<and>
          fi1 ix = NumDir d b + 1)"
    using layer_cases[OF l g] .
  have nd: "1 \<le> NumDir d b" using g by (cases d) (simp_all add: goodBlock_def)
  have hd: "hasDims (center b) (NumI b + 4) (NumJ b + 4) (NumK b + 4)"
    using goodBlock_center(1)[OF g] .
  have bi1: "boxIn (center b) ?L1" using lc nd by (intro boxIn_center[OF g t]) auto
  have bi2: "boxIn (center b) ?L2" using lc nd by (intro boxIn_center[OF g t]) auto
  have fb1: "boxIn (fCenter e b) (faceBox d e bx (g1 ix) (fg1 ix))" for e
    using lc nd by (intro boxIn_fCenter[OF g t]) auto
  have fb2: "boxIn (fCenter e b) (faceBox d e bx (g2 ix) (fg2 ix))" for e
    using lc nd by (intro boxIn_fCenter[OF g t]) auto
  have fields: "residual b' = residual b" "bc b' = bc b" "numGhosts b' = numGhosts b"
    "center b' = inserted (inserted (center b) ?L1 ?A1) ?L2 A2"
    by (simp_all add: b'_def)
  have hv: "hasDims v x y z = hasDims (vol b) x y z"
    "hasDims aI x y z = hasDims (fAreaI b) x y z"
    "hasDims aJ x y z = hasDims (fAreaJ b) x y z"
    "hasDims aK x y z = hasDims (fAreaK b) x y z" for x y z
    using sd by (simp_all add: hasDims_sameDims)
  have "wfBlock b" using g by (simp add: goodBlock_def)
  then have wf': "wfBlock b'"
    unfolding wfBlock_def Let_def NumI_def NumJ_def NumK_def b'_def by (simp add: hv)
  have good: "goodBlock b'"
    using g wf' fields(1,3) by (simp add: goodBlock_def NumI_def NumJ_def NumK_def)
  have frame: "at3c (center b') p = at3c (center b) p"
    if "inRangeC (center b) p" "\<not> inBox ?L1 p" "\<not> inBox ?L2 p" for p
    unfolding fields using inserted2_frame[OF hd bi1 bi2 that] .
  have val: "at3c (center b') p = movedCenter d ix b p" if p: "inBox ?L1 p" for p
  proof -
    have "dirIndex d p = g1 ix" using p by (rule inBox_layer_index)
    then have "\<not> inBox ?L2 p" using inBox_layer_index[of d "g2 ix" bx p] lc by auto
    from inserted2_first[OF hd bi1 bi2 p this]
    have "at3c (center b') p = at3c ?A1 (rel ?L1 p)" unfolding fields .
    also have "\<dots> = movedCenter d ix b p"
      unfolding movedCenter_def by (rule moved_slice[OF t p])
    finally show ?thesis .
  qed
  have fframe: "at3c (fCenter e b') p = at3c (fCenter e b) p"
    if "inRangeC (fCenter e b) p" "\<not> inBox (faceBox d e bx (g1 ix) (fg1 ix)) p"
       "\<not> inBox (faceBox d e bx (g2 ix) (fg2 ix)) p" for e p
  proof (cases e)
    case DirI
    show ?thesis using inserted2_frame[OF goodBlock_center(2)[OF g] fb1[of DirI, simplified] fb2[of DirI, simplified], of p] that
      by (simp add: DirI b'_def)
  next
    case DirJ
    show ?thesis using inserted2_frame[OF goodBlock_center(3)[OF g] fb1[of DirJ, simplified] fb2[of DirJ, simplified], of p] that
      by (simp add: DirJ b'_def)
  next
    case DirK
    show ?thesis using inserted2_frame[OF goodBlock_center(4)[OF g] fb1[of DirK, simplified] fb2[of DirK, simplified], of p] that
      by (simp add: DirK b'_def)
  qed
  have "AssignGhostCellsGeomSurface d bx ix b = Inr b'" using ex by (simp add: b'_def)
  with good fields(1-3) frame val fframe show ?thesis by blast
qed

lemma all_direction: "(\<forall>e. P e) \<longleftrightarrow> P DirI \<and> P DirJ \<and> P DirK"
  by (metis direction.exhaust)

lemma physCell_iff: "physCell b p \<longleftrightarrow> (\<forall>e. physIdx b e p)"
  by (cases p) (auto simp: all_direction physIdx_def)

lemma dirIndex_stepDir:
  "dirIndex e (stepDir d k p) = (if e = d then dirIndex e p + k else dirIndex e p)"
  by (cases e; cases d; cases p) simp_all

lemma layerBox_tang:
  assumes "tangIn d b bx" "inBox (layerBox d n bx) p"
  shows "dirIndex d p = n" and "\<forall>e. e \<noteq> d \<longrightarrow> physIdx b e p"
proof -
  show "dirIndex d p = n" using assms(2) by (rule inBox_layer_index)
  show "\<forall>e. e \<noteq> d \<longrightarrow> physIdx b e p"
    unfolding all_direction using assms
    by (cases d; cases bx; cases p) (simp_all add: physIdx_def)
qed

lemma faceBox_tang:
  assumes "inBox (faceBox d e bx c f) p"
  shows "dirIndex d p = (if e = d then f else c)"
  using assms by (cases d; cases e; cases bx; cases p) (simp_all add: faceBox_def)

lemma ghost_index:
  assumes "goodBlock b" "layerOk d b ix"
  shows "\<not> (numGhosts b \<le> g1 ix \<and> g1 ix < numGhosts b + NumDir d b)"
    and "\<not> (numGhosts b \<le> g2 ix \<and> g2 ix < numGhosts b + NumDir d b)"
    and "\<not> (numGhosts b \<le> fg1 ix \<and> fg1 ix \<le> numGhosts b + NumDir d b)"
    and "\<not> (numGhosts b \<le> fg2 ix \<and> fg2 ix \<le> numGhosts b + NumDir d b)"
    and "numGhosts b \<le> i1 ix \<and> i1 ix < numGhosts b + NumDir d b"
    and "numGhosts b \<le> bnd ix \<and> bnd ix \<le> numGhosts b + NumDir d b"
    and "numGhosts b \<le> fi1 ix \<and> fi1 ix \<le> numGhosts b + NumDir d b"
    and "g1 ix \<noteq> g2 ix"
proof -
  have n: "numGhosts b = 2" "1 \<le> NumDir d b"
    using assms(1) by (cases d; simp add: goodBlock_def)+
  show "\<not> (numGhosts b \<le> g1 ix \<and> g1 ix < numGhosts b + NumDir d b)"
    "\<not> (numGhosts b \<le> g2 ix \<and> g2 ix < numGhosts b + NumDir d b)"
    "\<not> (numGhosts b \<le> fg1 ix \<and> fg1 ix \<le> numGhosts b + NumDir d b)"
    "\<not> (numGhosts b \<le> fg2 ix \<and> fg2 ix \<le> numGhosts b + NumDir d b)"
    "numGhosts b \<le> i1 ix \<and> i1 ix < numGhosts b + NumDir d b"
    "numGhosts b \<le> bnd ix \<and> bnd ix \<le> numGhosts b + NumDir d b"
    "numGhosts b \<le> fi1 ix \<and> fi1 ix \<le> numGhosts b + NumDir d b"
    "g1 ix \<noteq> g2 ix"
    using layer_cases[OF assms(2,1)] n by auto
qed

lemma goodBlock_NumDir:
  assumes "goodBlock b"
  shows "numGhosts b = 2" "1 \<le> NumDir d b"
  using assms by (cases d; simp add: goodBlock_def)+

lemma ghost_layer_not_physical:
  assumes "goodBlock b" "tangIn d b bx" "layerOk d b ix"
    and "inBox (layerBox d (g1 ix) bx) p \<or> inBox (layerBox d (g2 ix) bx) p"
  shows "\<not> physCell b p"
proof
  assume "physCell b p"
  then have "physIdx b d p" by (simp add: physCell_iff)
  moreover have "dirIndex d p = g1 ix \<or> dirIndex d p = g2 ix"
    using assms(4) inBox_layer_index by blast
  ultimately show False using ghost_index(1,2)[OF assms(1,3)] by (auto simp: physIdx_def)
qed

lemma physFace_index:
  assumes "physFace e b p"
  shows "physIdx b d p \<or> (d = e \<and> dirIndex d p = numGhosts b + NumDir d b)"
proof -
  from assms have "physCell b p \<or> physCell b (stepDir e (- 1) p)" by (simp add: physFace_def)
  then show ?thesis
  proof
    assume "physCell b p" then show ?thesis by (simp add: physCell_iff)
  next
    assume "physCell b (stepDir e (- 1) p)"
    then have "physIdx b d (stepDir e (- 1) p)" by (simp add: physCell_iff)
    then show ?thesis by (auto simp: physIdx_def dirIndex_stepDir split: if_splits)
  qed
qed

lemma ghost_faces_not_physical:
  assumes "goodBlock b" "tangIn d b bx" "layerOk d b ix"
    and "inBox (faceBox d e bx (g1 ix) (fg1 ix)) p \<or> inBox (faceBox d e bx (g2 ix) (fg2 ix)) p"
  shows "\<not> physFace e b p"
proof
  assume pf: "physFace e b p"
  have i: "dirIndex d p = (if e = d then fg1 ix else g1 ix) \<or>
           dirIndex d p = (if e = d then fg2 ix else g2 ix)"
    using assms(4) faceBox_tang by blast
  from physFace_index[OF pf, of d] i ghost_index(1-4)[OF assms(1,3)]
    goodBlock_NumDir(2)[OF assms(1), of d]
  show False by (auto simp: physIdx_def split: if_splits)
qed

lemma physCell_inRange:
  assumes "goodBlock b" "physCell b p"
  shows "inRangeC (center b) p"
  using assms(2) goodBlock_center(1)[OF assms(1)] assms(1)
  by (cases p) (simp add: goodBlock_def hasDims_def inRangeC_def inRange_def)

lemma physFace_inRange:
  assumes "goodBlock b" "physFace e b p"
  shows "inRangeC (fCenter e b) p"
proof -
  obtain i j k where p: "p = (i, j, k)" by (cases p) auto
  have n: "numGhosts b = 2" using assms(1) by (simp add: goodBlock_def)
  show ?thesis
  proof (cases e)
    case DirI
    show ?thesis using assms(2) goodBlock_center(2)[OF assms(1)] n
      by (auto simp: DirI p hasDims_def inRangeC_def inRange_def physFace_def)
  next
    case DirJ
    show ?thesis using assms(2) goodBlock_center(3)[OF assms(1)] n
      by (auto simp: DirJ p hasDims_def inRangeC_def inRange_def physFace_def)
  next
    case DirK
    show ?thesis using assms(2) goodBlock_center(4)[OF assms(1)] n
      by (auto simp: DirK p hasDims_def inRangeC_def inRange_def physFace_def)
  qed
qed

lemma physCell_step:
  assumes "\<forall>e. e \<noteq> d \<longrightarrow> physIdx b e p"
    and "numGhosts b \<le> dirIndex d p + k" "dirIndex d p + k < numGhosts b + NumDir d b"
  shows "physCell b (stepDir d k p)"
  unfolding physCell_iff
proof
  fix e
  show "physIdx b e (stepDir d k p)"
    using assms by (cases "e = d") (simp_all add: physIdx_def dirIndex_stepDir)
qed

lemma physFace_step:
  assumes "\<forall>e. e \<noteq> d \<longrightarrow> physIdx b e p"
    and "numGhosts b \<le> dirIndex d p + k" "dirIndex d p + k \<le> numGhosts b + NumDir d b"
    and "1 \<le> NumDir d b"
  shows "physFace d b (stepDir d k p)"
proof (cases "dirIndex d p + k < numGhosts b + NumDir d b")
  case True
  then show ?thesis using physCell_step[OF assms(1,2)] by (simp add: physFace_def)
next
  case False
  have s: "stepDir d (- 1) (stepDir d k p) = stepDir d (k - 1) p"
    by (cases d; cases p) simp_all
  have "physCell b (stepDir d (k - 1) p)"
    using False assms by (intro physCell_step) auto
  then show ?thesis by (simp add: physFace_def s)
qed

lemma moved_reads_physical:
  assumes "goodBlock b" "tangIn d b bx" "layerOk d b ix" "inBox (layerBox d (g1 ix) bx) p"
  shows "physCell b (stepDir d (i1 ix - g1 ix) p)"
    and "physFace d b (stepDir d (bnd ix - g1 ix) p)"
    and "physFace d b (stepDir d (fi1 ix - g1 ix) p)"
proof -
  note t = layerBox_tang[OF assms(2,4)]
  note gi = ghost_index[OF assms(1,3)]
  show "physCell b (stepDir d (i1 ix - g1 ix) p)"
    using gi(5) t(1) by (intro physCell_step t(2)) simp_all
  show "physFace d b (stepDir d (bnd ix - g1 ix) p)"
    using gi(6) t(1) goodBlock_NumDir(2)[OF assms(1), of d] by (intro physFace_step t(2)) simp_all
  show "physFace d b (stepDir d (fi1 ix - g1 ix) p)"
    using gi(7) t(1) goodBlock_NumDir(2)[OF assms(1), of d] by (intro physFace_step t(2)) simp_all
qed

lemma first_layers_meet:
  assumes "goodBlock b" "tangIn d b bx" "layerOk d b ix" "tangIn d' b bx'" "layerOk d' b ix'"
    and "inBox (layerBox d (g1 ix) bx) p" "inBox (layerBox d' (g1 ix') bx') p"
  shows "d' = d \<and> g1 ix' = g1 ix \<and> i1 ix' = i1 ix \<and> bnd ix' = bnd ix \<and> fi1 ix' = fi1 ix"
proof -
  note t = layerBox_tang[OF assms(2,6)]
  note t' = layerBox_tang[OF assms(4,7)]
  have d: "d' = d"
  proof (rule ccontr)
    assume "d' \<noteq> d"
    then have "physIdx b d' p" using t(2) by simp
    then show False using t'(1) ghost_index(1)[OF assms(1,5)] by (simp add: physIdx_def)
  qed
  have g: "g1 ix' = g1 ix" using t(1) t'(1) d by simp
  show ?thesis
    using d g layer_cases[OF assms(3,1)] layer_cases[OF assms(5,1)]
      goodBlock_NumDir(2)[OF assms(1), of d]
    by auto
qed

lemma first_second_layers_apart:
  assumes "goodBlock b" "tangIn d b bx" "layerOk d b ix" "tangIn d' b bx'" "layerOk d' b ix'"
    and "inBox (layerBox d (g1 ix) bx) p"
  shows "\<not> inBox (layerBox d' (g2 ix') bx') p"
proof
  assume a: "inBox (layerBox d' (g2 ix') bx') p"
  note t = layerBox_tang[OF assms(2,6)]
  note t' = layerBox_tang[OF assms(4) a]
  have d: "d' = d"
  proof (rule ccontr)
    assume "d' \<noteq> d"
    then have "physIdx b d' p" using t(2) by simp
    then show False using t'(1) ghost_index(2)[OF assms(1,5)] by (simp add: physIdx_def)
  qed
  have "g2 ix' = g1 ix" using t(1) t'(1) d by simp
  then show False
    using d layer_cases[OF assms(3,1)] layer_cases[OF assms(5,1)]
      goodBlock_NumDir(2)[OF assms(1), of d]
    by auto
qed

lemma Step_active:
  assumes "activeSurface sf"
  shows "AssignGhostCellsGeomStep sf b =
         AssignGhostCellsGeomSurface (surfaceDir (surfaceType sf)) (surfaceBox b sf)
           (surfaceLayers b sf) b"
proof -
  have "surfaceType sf \<in> {1, 2, 3, 4, 5, 6}" using assms by (auto simp: activeSurface_def)
  then show ?thesis
    using assms unfolding AssignGhostCellsGeomStep_def surfaceLayers_def surfaceDir_def
      activeSurface_def
    by (auto simp: Let_def split: prod.splits)
qed

lemma Step_inactive:
  assumes "\<not> activeSurface sf"
  shows "AssignGhostCellsGeomStep sf b = Inr b"
  using assms unfolding AssignGhostCellsGeomStep_def activeSurface_def
  by (auto simp: Let_def split: prod.splits)

lemma wfSurface_layerOk:
  assumes "wfSurface b sf" "activeSurface sf"
  shows "layerOk (surfaceDir (surfaceType sf)) b (surfaceLayers b sf)"
proof -
  have "surfaceType sf \<in> {1, 2, 3, 4, 5, 6}" using assms(2) by (auto simp: activeSurface_def)
  then show ?thesis
    using assms unfolding wfSurface_def layerOk_def surfaceLayers_def surfaceDir_def
      surfaceBox_def surfaceIndices_def Let_def
    by auto
qed

lemma foldE_invariant_aux:
  assumes step: "\<And>x s. x \<in> X \<Longrightarrow> I s \<Longrightarrow>
             \<exists>s'. f x s = Inr s' \<and> I s' \<and> Q x s' \<and> (\<forall>y \<in> X. Q y s \<longrightarrow> Q y s')"
  shows "I s0 \<Longrightarrow> \<forall>y \<in> Y. Q y s0 \<Longrightarrow> set xs \<subseteq> X \<Longrightarrow> Y \<subseteq> X \<Longrightarrow>
         \<exists>s'. foldE f xs s0 = Inr s' \<and> I s' \<and> (\<forall>x \<in> set xs \<union> Y. Q x s')"
proof (induction xs arbitrary: s0 Y)
  case Nil
  then show ?case by simp
next
  case (Cons x xs)
  have "x \<in> X" using Cons.prems(3) by simp
  from step[OF this Cons.prems(1)] obtain s1 where
    s1: "f x s0 = Inr s1" "I s1" "Q x s1" "\<forall>y \<in> X. Q y s0 \<longrightarrow> Q y s1" by blast
  have "\<forall>y \<in> insert x Y. Q y s1" using s1(3,4) Cons.prems(2,4) by blast
  from Cons.IH[OF s1(2) this] Cons.prems(3,4) \<open>x \<in> X\<close>
  obtain s' where "foldE f xs s1 = Inr s'" "I s'" "\<forall>x \<in> set xs \<union> insert x Y. Q x s'"
    by auto
  then show ?case using s1(1) by auto
qed

lemma foldE_invariant:
  assumes "I s0"
    and "\<And>x s. x \<in> set xs \<Longrightarrow> I s \<Longrightarrow>
             \<exists>s'. f x s = Inr s' \<and> I s' \<and> Q x s' \<and> (\<forall>y \<in> set xs. Q y s \<longrightarrow> Q y s')"
  shows "\<exists>s'. foldE f xs s0 = Inr s' \<and> I s' \<and> (\<forall>x \<in> set xs. Q x s')"
  using foldE_invariant_aux[of "set xs" I f Q s0 "{}" xs, OF assms(2) assms(1)] by simp

lemma same_extents:
  assumes "residual s = residual b" "numGhosts s = numGhosts b"
  shows "NumDir d s = NumDir d b" "surfaceBox s sf = surfaceBox b sf"
    "surfaceLayers s sf = surfaceLayers b sf" "tangIn d s bx = tangIn d b bx"
    "layerOk d s ix = layerOk d b ix" "physCell s p = physCell b p"
    "physFace e s p = physFace e b p" "ghostLayer s sf = ghostLayer b sf"
proof -
  have n: "NumI s = NumI b" "NumJ s = NumJ b" "NumK s = NumK b"
    using assms(1) by (simp_all add: NumI_def NumJ_def NumK_def)
  show nd: "NumDir d s = NumDir d b" for d using n by (cases d) simp_all
  show sb: "surfaceBox s sf = surfaceBox b sf" using assms(2) by (simp add: surfaceBox_def)
  show sl: "surfaceLayers s sf = surfaceLayers b sf" by (simp add: surfaceLayers_def sb)
  show "tangIn d s bx = tangIn d b bx" using n assms(2) by (cases bx) simp
  show "layerOk d s ix = layerOk d b ix" using nd assms(2) by (simp add: layerOk_def)
  show pc: "physCell s p = physCell b p" for p using n assms(2) by (cases p) simp
  show "physFace e s p = physFace e b p" by (simp add: physFace_def pc)
  show "ghostLayer s sf = ghostLayer b sf" by (simp add: ghostLayer_def sb sl)
qed

lemma ghost_layer_inRange:
  assumes "goodBlock b" "tangIn d b bx" "layerOk d b ix" "inBox (layerBox d (g1 ix) bx) p"
  shows "inRangeC (center b) p"
proof -
  have "0 \<le> g1 ix \<and> g1 ix \<le> NumDir d b + 3"
    using layer_cases[OF assms(3,1)] goodBlock_NumDir(2)[OF assms(1), of d] by auto
  then have "boxIn (center b) (layerBox d (g1 ix) bx)"
    using boxIn_center[OF assms(1,2)] by simp
  then show ?thesis using assms(4) unfolding boxIn_def by blast
qed

lemma movedCenter_same:
  assumes "goodBlock b" "tangIn d b bx" "layerOk d b ix" "inBox (layerBox d (g1 ix) bx) p"
    and "\<forall>p. physCell b p \<longrightarrow> at3c (center s) p = at3c (center b) p"
    and "\<forall>e p. physFace e b p \<longrightarrow> at3c (fCenter e s) p = at3c (fCenter e b) p"
  shows "movedCenter d ix s p = movedCenter d ix b p"
proof -
  note r = moved_reads_physical[OF assms(1-4)]
  have a: "at3c (center s) (stepDir d (i1 ix - g1 ix) p) =
           at3c (center b) (stepDir d (i1 ix - g1 ix) p)"
    using assms(5) r(1) by blast
  have b: "at3c (fCenter d s) (stepDir d (bnd ix - g1 ix) p) =
           at3c (fCenter d b) (stepDir d (bnd ix - g1 ix) p)"
    using assms(6) r(2) by blast
  have c: "at3c (fCenter d s) (stepDir d (fi1 ix - g1 ix) p) =
           at3c (fCenter d b) (stepDir d (fi1 ix - g1 ix) p)"
    using assms(6) r(3) by blast
  show ?thesis unfolding movedCenter_def a b c ..
qed

lemma movedCenter_indices:
  assumes "g1 ix' = g1 ix" "i1 ix' = i1 ix" "bnd ix' = bnd ix" "fi1 ix' = fi1 ix"
  shows "movedCenter d ix' b p = movedCenter d ix b p"
  using assms by (simp add: movedCenter_def)

lemma wfSurface_active:
  assumes "wfSurface b sf" "activeSurface sf"
  shows "tangIn (surfaceDir (surfaceType sf)) b (surfaceBox b sf)"
    and "layerOk (surfaceDir (surfaceType sf)) b (surfaceLayers b sf)"
  using assms wfSurface_layerOk[OF assms] by (simp_all add: wfSurface_def)

lemma AssignGhostCellsGeomStep_invariant:
  assumes g: "goodBlock b" and wx: "wfSurface b x"
    and i: "goodBlock s" "residual s = residual b" "bc s = bc b" "numGhosts s = numGhosts b"
      "\<forall>p. physCell b p \<longrightarrow> at3c (center s) p = at3c (center b) p"
      "\<forall>e p. physFace e b p \<longrightarrow> at3c (fCenter e s) p = at3c (fCenter e b) p"
  shows "\<exists>s'. AssignGhostCellsGeomStep x s = Inr s' \<and>
           (goodBlock s' \<and> residual s' = residual b \<and> bc s' = bc b \<and> numGhosts s' = numGhosts b \<and>
            (\<forall>p. physCell b p \<longrightarrow> at3c (center s') p = at3c (center b) p) \<and>
            (\<forall>e p. physFace e b p \<longrightarrow> at3c (fCenter e s') p = at3c (fCenter e b) p)) \<and>
           (activeSurface x \<longrightarrow> (\<forall>p. inBox (ghostLayer b x) p \<longrightarrow>
              at3c (center s') p =
                movedCenter (surfaceDir (surfaceType x)) (surfaceLayers b x) b p)) \<and>
           (\<forall>y. wfSurface b y \<and> activeSurface y \<longrightarrow>
              (\<forall>p. inBox (ghostLayer b y) p \<longrightarrow>
                 at3c (center s) p =
                   movedCenter (surfaceDir (surfaceType y)) (surfaceLayers b y) b p \<longrightarrow>
                 at3c (center s') p =
                   movedCenter (surfaceDir (surfaceType y)) (surfaceLayers b y) b p))"
proof (cases "activeSurface x")
  case False
  then show ?thesis using i by (simp add: Step_inactive)
next
  case True
  let ?d = "surfaceDir (surfaceType x)" and ?bx = "surfaceBox b x" and ?ix = "surfaceLayers b x"
  note se = same_extents[OF i(2,4)]
  have t: "tangIn ?d b ?bx" and l: "layerOk ?d b ?ix" using wfSurface_active[OF wx True] .
  have ts: "tangIn ?d s ?bx" and ls: "layerOk ?d s ?ix" using t l by (simp_all add: se)
  have st: "AssignGhostCellsGeomStep x s = AssignGhostCellsGeomSurface ?d ?bx ?ix s"
    using Step_active[OF True, of s] by (simp add: se)
  from AssignGhostCellsGeomSurface_step[OF i(1) ts ls] obtain s' where
    s': "AssignGhostCellsGeomSurface ?d ?bx ?ix s = Inr s'" "goodBlock s'"
      "residual s' = residual s" "bc s' = bc s" "numGhosts s' = numGhosts s"
    and fr: "\<And>p. inRangeC (center s) p \<Longrightarrow> \<not> inBox (layerBox ?d (g1 ?ix) ?bx) p \<Longrightarrow>
                \<not> inBox (layerBox ?d (g2 ?ix) ?bx) p \<Longrightarrow> at3c (center s') p = at3c (center s) p"
    and va: "\<And>p. inBox (layerBox ?d (g1 ?ix) ?bx) p \<Longrightarrow> at3c (center s') p = movedCenter ?d ?ix s p"
    and ff: "\<And>e p. inRangeC (fCenter e s) p \<Longrightarrow> \<not> inBox (faceBox ?d e ?bx (g1 ?ix) (fg1 ?ix)) p \<Longrightarrow>
                \<not> inBox (faceBox ?d e ?bx (g2 ?ix) (fg2 ?ix)) p \<Longrightarrow>
                at3c (fCenter e s') p = at3c (fCenter e s) p"
    by blast
  have cells: "at3c (center s') p = at3c (center b) p" if p: "physCell b p" for p
  proof -
    have ps: "physCell s p" using p by (simp add: se)
    have "at3c (center s') p = at3c (center s) p"
      using physCell_inRange[OF i(1) ps] ghost_layer_not_physical[OF i(1) ts ls, of p] ps
      by (intro fr) auto
    then show ?thesis using i(5) p by simp
  qed
  have faces: "at3c (fCenter e s') p = at3c (fCenter e b) p" if p: "physFace e b p" for e p
  proof -
    have ps: "physFace e s p" using p by (simp add: se)
    have "at3c (fCenter e s') p = at3c (fCenter e s) p"
      using physFace_inRange[OF i(1) ps] ghost_faces_not_physical[OF i(1) ts ls, of e p] ps
      by (intro ff) auto
    then show ?thesis using i(6) p by simp
  qed
  have own: "at3c (center s') p = movedCenter ?d ?ix b p"
    if p: "inBox (layerBox ?d (g1 ?ix) ?bx) p" for p
    using va[OF p] movedCenter_same[OF g t l p i(5,6)] by simp
  have others: "at3c (center s') p = movedCenter (surfaceDir (surfaceType y)) (surfaceLayers b y) b p"
    if y: "wfSurface b y" "activeSurface y" and p: "inBox (ghostLayer b y) p"
      and q: "at3c (center s) p = movedCenter (surfaceDir (surfaceType y)) (surfaceLayers b y) b p"
    for y p
  proof -
    let ?dy = "surfaceDir (surfaceType y)" and ?by = "surfaceBox b y" and ?iy = "surfaceLayers b y"
    have ty: "tangIn ?dy b ?by" and ly: "layerOk ?dy b ?iy" using wfSurface_active[OF y] .
    have py: "inBox (layerBox ?dy (g1 ?iy) ?by) p" using p by (simp add: ghostLayer_def)
    show ?thesis
    proof (cases "inBox (layerBox ?d (g1 ?ix) ?bx) p")
      case True
      from first_layers_meet[OF g t l ty ly True py]
      have e: "?dy = ?d" "g1 ?iy = g1 ?ix" "i1 ?iy = i1 ?ix" "bnd ?iy = bnd ?ix" "fi1 ?iy = fi1 ?ix"
        by simp_all
      have "movedCenter ?dy ?iy b p = movedCenter ?d ?ix b p"
        unfolding e(1) using e(2-5) by (rule movedCenter_indices)
      then show ?thesis using own[OF True] by simp
    next
      case False
      have n2: "\<not> inBox (layerBox ?d (g2 ?ix) ?bx) p"
        using first_second_layers_apart[OF g ty ly t l py] .
      have "inRangeC (center b) p" using ghost_layer_inRange[OF g ty ly py] .
      then have "inRangeC (center s) p"
        using goodBlock_center(1)[OF g] goodBlock_center(1)[OF i(1)] se(1)[of DirI] se(1)[of DirJ]
          se(1)[of DirK]
        by (cases p) (simp add: inRangeC_def inRange_def hasDims_def)
      from fr[OF this False n2] q show ?thesis by simp
    qed
  qed
  have "AssignGhostCellsGeomStep x s = Inr s'" using st s'(1) by simp
  moreover have "residual s' = residual b" "bc s' = bc b" "numGhosts s' = numGhosts b"
    using s'(3-5) i(2-4) by simp_all
  ultimately show ?thesis
    using s'(2) cells faces own others unfolding ghostLayer_def by blast
qed

lemma AssignGhostCellsGeom_center:
  assumes g: "goodBlock b" and w: "\<forall>sf \<in> set (bc b). wfSurface b sf"
  shows "\<exists>b'. AssignGhostCellsGeom b = Inr b' \<and> goodBlock b' \<and>
     (\<forall>p. physCell b p \<longrightarrow> at3c (center b') p = at3c (center b) p) \<and>
     (\<forall>e p. physFace e b p \<longrightarrow> at3c (fCenter e b') p = at3c (fCenter e b) p) \<and>
     (\<forall>sf \<in> set (bc b). activeSurface sf \<longrightarrow>
        (\<forall>p. inBox (ghostLayer b sf) p \<longrightarrow>
           at3c (center b') p =
             movedCenter (surfaceDir (surfaceType sf)) (surfaceLayers b sf) b p))"
proof -
  define I where "I s \<longleftrightarrow> goodBlock s \<and> residual s = residual b \<and> bc s = bc b \<and>
      numGhosts s = numGhosts b \<and>
      (\<forall>p. physCell b p \<longrightarrow> at3c (center s) p = at3c (center b) p) \<and>
      (\<forall>e p. physFace e b p \<longrightarrow> at3c (fCenter e s) p = at3c (fCenter e b) p)"
    for s :: procBlock
  define Q where "Q sf s \<longleftrightarrow> (activeSurface sf \<longrightarrow> (\<forall>p. inBox (ghostLayer b sf) p \<longrightarrow>
      at3c (center s) p = movedCenter (surfaceDir (surfaceType sf)) (surfaceLayers b sf) b p))"
    for sf and s :: procBlock
  have i0: "I b" using g by (simp add: I_def)
  have step: "\<exists>s'. AssignGhostCellsGeomStep x s = Inr s' \<and> I s' \<and> Q x s' \<and>
                (\<forall>y \<in> set (bc b). Q y s \<longrightarrow> Q y s')"
    if x: "x \<in> set (bc b)" and s: "I s" for x s
  proof -
    have wx: "wfSurface b x" using w x by blast
    from AssignGhostCellsGeomStep_invariant[OF g wx, of s] s
    obtain s' where s': "AssignGhostCellsGeomStep x s = Inr s'" "I s'" "Q x s'"
      and o: "\<forall>y. wfSurface b y \<and> activeSurface y \<longrightarrow>
              (\<forall>p. inBox (ghostLayer b y) p \<longrightarrow>
                 at3c (center s) p =
                   movedCenter (surfaceDir (surfaceType y)) (surfaceLayers b y) b p \<longrightarrow>
                 at3c (center s') p =
                   movedCenter (surfaceDir (surfaceType y)) (surfaceLayers b y) b p)"
      unfolding I_def Q_def by blast
    have "\<forall>y \<in> set (bc b). Q y s \<longrightarrow> Q y s'"
      using o w unfolding Q_def by blast
    with s' show ?thesis by blast
  qed
  from foldE_invariant[of I b "bc b" AssignGhostCellsGeomStep Q, OF i0 step]
  obtain b' where "foldE AssignGhostCellsGeomStep (bc b) b = Inr b'" "I b'"
    "\<forall>x \<in> set (bc b). Q x b'"
    by blast
  then show ?thesis unfolding AssignGhostCellsGeom_def I_def Q_def by blast
qed

lemma vector3d_reflect:
  fixes c fb fi :: vector3d
  shows "(c + (fb - fi)) - fb = fb - c \<longleftrightarrow> c + c = fb + fi"
  by (cases c; cases fb; cases fi) auto

lemma boxBlock_fields:
  "center (boxBlock off surfs) = tabulate3 5 5 5
         (\<lambda>i j k. Vector3d (of_int i - 2 + off) (of_int j - 2 + 1 / 2) (of_int k - 2 + 1 / 2))"
  "fCenterI (boxBlock off surfs) = tabulate3 6 5 5
         (\<lambda>i j k. Vector3d (of_int i - 2) (of_int j - 2 + 1 / 2) (of_int k - 2 + 1 / 2))"
  "bc (boxBlock off surfs) = surfs" "numGhosts (boxBlock off surfs) = 2"
  "NumI (boxBlock off surfs) = 1" "NumJ (boxBlock off surfs) = 1" "NumK (boxBlock off surfs) = 1"
  by (simp_all add: boxBlock_def allocBlock_def NumI_def NumJ_def NumK_def)

lemma Size_mkArray: "Size (mkArray ni nj nk v) = int (nat (ni * nj * nk))"
  by (simp add: mkArray_def Size_def)

lemma boxBlock_wf: "wfBlock (boxBlock off surfs)"
  unfolding wfBlock_def Let_def
  by (simp add: boxBlock_def allocBlock_def NumI_def NumJ_def NumK_def hasDims_def Size_mkArray)

lemma boxBlock_good: "goodBlock (boxBlock off surfs)"
  by (simp add: goodBlock_def boxBlock_wf boxBlock_fields)

lemma boxBlock_at:
  "at3c (center (boxBlock off surfs)) (2, 2, 2) = Vector3d off (1 / 2) (1 / 2)"
  "at3c (fCenterI (boxBlock off surfs)) (2, 2, 2) = Vector3d 0 (1 / 2) (1 / 2)"
  "at3c (fCenterI (boxBlock off surfs)) (3, 2, 2) = Vector3d 1 (1 / 2) (1 / 2)"
  by (simp_all add: boxBlock_fields at3c_def at3_tabulate3)

lemma wall_surfaces:
  "wfSurface (boxBlock off surfs) lowerIWall" "wfSurface (boxBlock off surfs) upperIWall"
  "wfSurface (boxBlock off surfs) lowerJInterblock"
  "activeSurface lowerIWall" "activeSurface upperIWall" "\<not> activeSurface lowerJInterblock"
  "surfaceDir (surfaceType lowerIWall) = DirI" "surfaceDir (surfaceType upperIWall) = DirI"
  "surfaceLayers (boxBlock off surfs) lowerIWall = lowerIndices"
  "surfaceLayers (boxBlock off surfs) upperIWall = upperIndices 2"
  "ghostLayer (boxBlock off surfs) lowerIWall = (1, 1, 2, 2, 2, 2)"
  "ghostLayer (boxBlock off surfs) upperIWall = (3, 3, 2, 2, 2, 2)"
  by (simp_all add: wfSurface_def activeSurface_def lowerIWall_def upperIWall_def
      lowerJInterblock_def surfaceDir_def surfaceLayers_def surfaceBox_def surfaceIndices_def
      ghostLayer_def boxBlock_fields lowerIndices_def upperIndices_def)

text \<open>
  Claim C2, as the code has it. Take a block with two ghost layers and at least one cell
  in each direction, laid out as the constructor does, whose boundary surfaces are well
  formed. \<open>AssignGhostCellsGeom\<close> returns, and for every surface that is not an
  inter-block patch and every cell \<open>gc\<close> of its first ghost layer, with \<open>ic\<close> the
  interior cell next to it, \<open>bf\<close> the boundary face between them and \<open>nf\<close> the face
  of \<open>ic\<close> opposite the boundary: the ghost center is the interior center moved by the
  vector from \<open>nf\<close> to \<open>bf\<close>, while the interior center and the two face centers keep
  their values. So the ghost center mirrors the interior center in the boundary face
  center exactly when the interior center is the midpoint of its two face centers.
\<close>

theorem AssignGhostCellsGeom_ghost_center:
  assumes "wfBlock b" and "numGhosts b = 2"
    and "1 \<le> NumI b" and "1 \<le> NumJ b" and "1 \<le> NumK b"
    and "\<forall>s \<in> set (bc b). wfSurface b s"
    and "sf \<in> set (bc b)" and "activeSurface sf"
    and "inBox (ghostLayer b sf) gc"
  shows "\<exists>b'. AssignGhostCellsGeom b = Inr b' \<and>
     (let d = surfaceDir (surfaceType sf); ix = surfaceLayers b sf;
          ic = stepDir d (i1 ix - g1 ix) gc;
          bf = stepDir d (bnd ix - g1 ix) gc;
          nf = stepDir d (fi1 ix - g1 ix) gc
      in at3c (center b') gc =
           at3c (center b) ic + (at3c (fCenter d b) bf - at3c (fCenter d b) nf) \<and>
         at3c (center b') ic = at3c (center b) ic \<and>
         at3c (fCenter d b') bf = at3c (fCenter d b) bf \<and>
         at3c (fCenter d b') nf = at3c (fCenter d b) nf \<and>
         (at3c (center b') gc - at3c (fCenter d b') bf =
            at3c (fCenter d b') bf - at3c (center b') ic \<longleftrightarrow>
          at3c (center b) ic + at3c (center b) ic =
            at3c (fCenter d b) bf + at3c (fCenter d b) nf))"
proof -
  let ?d = "surfaceDir (surfaceType sf)" and ?ix = "surfaceLayers b sf"
  let ?ic = "stepDir ?d (i1 ?ix - g1 ?ix) gc"
  let ?bf = "stepDir ?d (bnd ?ix - g1 ?ix) gc"
  let ?nf = "stepDir ?d (fi1 ?ix - g1 ?ix) gc"
  have g: "goodBlock b" using assms(1-5) by (simp add: goodBlock_def)
  have w: "wfSurface b sf" using assms(6,7) by blast
  note ta = wfSurface_active[OF w assms(8)]
  have p: "inBox (layerBox ?d (g1 ?ix) (surfaceBox b sf)) gc"
    using assms(9) by (simp add: ghostLayer_def)
  note r = moved_reads_physical[OF g ta p]
  from AssignGhostCellsGeom_center[OF g assms(6)] obtain b' where
    b': "AssignGhostCellsGeom b = Inr b'"
    and c: "\<forall>p. physCell b p \<longrightarrow> at3c (center b') p = at3c (center b) p"
    and f: "\<forall>e p. physFace e b p \<longrightarrow> at3c (fCenter e b') p = at3c (fCenter e b) p"
    and m: "\<forall>sf \<in> set (bc b). activeSurface sf \<longrightarrow>
        (\<forall>p. inBox (ghostLayer b sf) p \<longrightarrow>
           at3c (center b') p =
             movedCenter (surfaceDir (surfaceType sf)) (surfaceLayers b sf) b p)"
    by blast
  have 1: "at3c (center b') gc =
           at3c (center b) ?ic + (at3c (fCenter ?d b) ?bf - at3c (fCenter ?d b) ?nf)"
    using m assms(7,8,9) unfolding movedCenter_def by blast
  have 2: "at3c (center b') ?ic = at3c (center b) ?ic" using c r(1) by blast
  have 3: "at3c (fCenter ?d b') ?bf = at3c (fCenter ?d b) ?bf" using f r(2) by blast
  have 4: "at3c (fCenter ?d b') ?nf = at3c (fCenter ?d b) ?nf" using f r(3) by blast
  have 5: "at3c (center b') gc - at3c (fCenter ?d b') ?bf =
            at3c (fCenter ?d b') ?bf - at3c (center b') ?ic \<longleftrightarrow>
          at3c (center b) ?ic + at3c (center b) ?ic =
            at3c (fCenter ?d b) ?bf + at3c (fCenter ?d b) ?nf"
    unfolding 1 2 3 by (rule vector3d_reflect)
  show ?thesis unfolding Let_def using b' 1 2 3 4 5 by blast
qed

text \<open>
  On the one-cell block whose center lies at 7/10 of the cell, with a wall on the lower
  i-surface, the ghost center is moved by one cell width to -3/10; it lies 3/10 behind
  the boundary face while the interior center lies 7/10 in front of it.
\<close>

theorem AssignGhostCellsGeom_translates:
  "\<not> isl (AssignGhostCellsGeom (boxBlock (7 / 10) [lowerIWall])) \<and>
   at3c (center (projr (AssignGhostCellsGeom (boxBlock (7 / 10) [lowerIWall])))) (1, 2, 2) -
     at3c (fCenterI (projr (AssignGhostCellsGeom (boxBlock (7 / 10) [lowerIWall])))) (2, 2, 2) =
     Vector3d (- 3 / 10) 0 0 \<and>
   at3c (fCenterI (projr (AssignGhostCellsGeom (boxBlock (7 / 10) [lowerIWall])))) (2, 2, 2) -
     at3c (center (projr (AssignGhostCellsGeom (boxBlock (7 / 10) [lowerIWall])))) (2, 2, 2) =
     Vector3d (- 7 / 10) 0 0 \<and>
   at3c (center (projr (AssignGhostCellsGeom (boxBlock (7 / 10) [lowerIWall])))) (1, 2, 2) -
     at3c (fCenterI (projr (AssignGhostCellsGeom (boxBlock (7 / 10) [lowerIWall])))) (2, 2, 2) \<noteq>
   at3c (fCenterI (projr (AssignGhostCellsGeom (boxBlock (7 / 10) [lowerIWall])))) (2, 2, 2) -
     at3c (center (projr (AssignGhostCellsGeom (boxBlock (7 / 10) [lowerIWall])))) (2, 2, 2)"
proof -
  let ?b = "boxBlock (7 / 10) [lowerIWall]"
  have w: "\<forall>sf \<in> set (bc ?b). wfSurface ?b sf"
    by (simp add: boxBlock_fields wall_surfaces)
  from AssignGhostCellsGeom_center[OF boxBlock_good w] obtain b' where
    b': "AssignGhostCellsGeom ?b = Inr b'"
    and c: "\<forall>p. physCell ?b p \<longrightarrow> at3c (center b') p = at3c (center ?b) p"
    and f: "\<forall>e p. physFace e ?b p \<longrightarrow> at3c (fCenter e b') p = at3c (fCenter e ?b) p"
    and m: "\<forall>sf \<in> set (bc ?b). activeSurface sf \<longrightarrow>
        (\<forall>p. inBox (ghostLayer ?b sf) p \<longrightarrow>
           at3c (center b') p =
             movedCenter (surfaceDir (surfaceType sf)) (surfaceLayers ?b sf) ?b p)"
    by blast
  have "at3c (center b') (1, 2, 2) = movedCenter DirI lowerIndices ?b (1, 2, 2)"
    using m by (simp add: boxBlock_fields wall_surfaces)
  then have 1: "at3c (center b') (1, 2, 2) = Vector3d (- 3 / 10) (1 / 2) (1 / 2)"
    by (simp add: movedCenter_def lowerIndices_def boxBlock_at)
  have "physCell ?b (2, 2, 2)" by (simp add: boxBlock_fields)
  then have 2: "at3c (center b') (2, 2, 2) = Vector3d (7 / 10) (1 / 2) (1 / 2)"
    using c by (simp add: boxBlock_at)
  have "physFace DirI ?b (2, 2, 2)" by (simp add: physFace_def boxBlock_fields)
  then have "at3c (fCenter DirI b') (2, 2, 2) = at3c (fCenter DirI ?b) (2, 2, 2)"
    using f by blast
  then have 3: "at3c (fCenterI b') (2, 2, 2) = Vector3d 0 (1 / 2) (1 / 2)"
    by (simp add: boxBlock_at)
  show ?thesis unfolding b' by (simp add: 1 2 3)
qed

theorem AssignGhostCellsGeom_ghost_center_witness:
  "\<exists>b'. AssignGhostCellsGeom (boxBlock (1 / 2) [lowerJInterblock, upperIWall]) = Inr b' \<and>
     at3c (center b') (3, 2, 2) = Vector3d (3 / 2) (1 / 2) (1 / 2) \<and>
     at3c (center b') (2, 2, 2) = Vector3d (1 / 2) (1 / 2) (1 / 2) \<and>
     at3c (fCenterI b') (3, 2, 2) = Vector3d 1 (1 / 2) (1 / 2) \<and>
     at3c (center b') (3, 2, 2) - at3c (fCenterI b') (3, 2, 2) =
       at3c (fCenterI b') (3, 2, 2) - at3c (center b') (2, 2, 2)"
proof -
  let ?b = "boxBlock (1 / 2) [lowerJInterblock, upperIWall]"
  have h: "wfBlock ?b" "numGhosts ?b = 2" "1 \<le> NumI ?b" "1 \<le> NumJ ?b" "1 \<le> NumK ?b"
    by (simp_all add: boxBlock_wf boxBlock_fields)
  have w: "\<forall>s \<in> set (bc ?b). wfSurface ?b s"
    by (simp add: boxBlock_fields wall_surfaces)
  have s: "upperIWall \<in> set (bc ?b)" by (simp add: boxBlock_fields)
  have p: "inBox (ghostLayer ?b upperIWall) (3, 2, 2)" by (simp add: wall_surfaces)
  from AssignGhostCellsGeom_ghost_center[OF h w s wall_surfaces(5) p]
  show ?thesis
    apply (simp add: Let_def wall_surfaces upperIndices_def boxBlock_at)
    apply blast
    done
qed

section \<open>Properties of the swap of geometry\<close>














































end
